theory Spec2Isabelle
  imports Main "HOL-Library.Log_Nat"
begin

section \<open>Text, characters and the exceptions of the interpreter\<close>

text \<open>
  The scraper works on text throughout. Text is modelled as \<open>string\<close>, a character
  being a code point below 256. On these code points the character classes are the ones
  of the interpreter: \<open>\d\<close> takes the digits \<open>0\<close> to \<open>9\<close>; \<open>\s\<close> and \<open>str.strip\<close> take the
  characters for which \<open>str.isspace\<close> holds, which are ten ASCII characters, the next-line
  character \<open>0x85\<close> and the no-break space \<open>0xA0\<close>; and letters are compared without case
  on the ASCII letters only.
  Exceptions are values: a computation that may raise returns \<open>py_error + 'a\<close>.
  Logging is left out: no control flow of the scraper depends on it.
\<close>

datatype py_error = ValueError | OverflowError | FileNotFoundError | OSError | WebDriverException

definition is_digit :: "char \<Rightarrow> bool" where
  "is_digit c = (c \<in> set ''0123456789'')"

definition is_space :: "char \<Rightarrow> bool" where
  "is_space c = (c \<in> set [CHR 0x09, CHR 0x0A, CHR 0x0B, CHR 0x0C, CHR 0x0D,
                            CHR 0x1C, CHR 0x1D, CHR 0x1E, CHR 0x1F, CHR 0x20,
                            CHR 0x85, CHR 0xA0])"

text \<open>\<open>[\d.]\<close> and \<open>[\d,.]\<close>, the two classes of the count patterns.\<close>

definition is_numch :: "char \<Rightarrow> bool" where
  "is_numch c = (is_digit c \<or> c = CHR ''.'')"

definition is_countch :: "char \<Rightarrow> bool" where
  "is_countch c = (is_digit c \<or> c = CHR '','' \<or> c = CHR ''.'')"

definition is_suffix_ch :: "char \<Rightarrow> bool" where
  "is_suffix_ch c = (c \<in> set ''kKmM'')"

definition strip :: "string \<Rightarrow> string" where
  "strip s = rev (dropWhile is_space (rev (dropWhile is_space s)))"

definition digit_val :: "char \<Rightarrow> int" where
  "digit_val c = of_char c - 48"

definition int_of_digits :: "string \<Rightarrow> int" where
  "int_of_digits ds = foldl (\<lambda>acc c. acc * 10 + digit_val c) 0 ds"

text \<open>
  \<open>int(text)\<close> on a string of digits: the empty string raises \<open>ValueError\<close>, and so does a
  string longer than the interpreter's limit on integer conversion (4300 digits).
\<close>

definition py_int_of_digits :: "string \<Rightarrow> py_error + int" where
  "py_int_of_digits ds =
     (if ds = [] \<or> length ds > 4300 then Inl ValueError else Inr (int_of_digits ds))"

section \<open>Floating point: the values \<open>float\<close> can take on digit strings\<close>

text \<open>
  A float is a binary64 number: \<open>Finite m p\<close> is \<open>m * 2 ^ p\<close>, \<open>Infinity\<close> is the result
  of an overflow (the patterns admit no sign, so no negative infinity arises).
  \<open>round_to_double n d\<close> is the binary64 number nearest to \<open>n / d\<close> for \<open>0 \<le> n\<close> and
  \<open>0 < d\<close>, ties to the even mantissa, as \<open>float(text)\<close> and the multiplication of two
  floats compute it.
\<close>

datatype pyfloat = Finite int int | Infinity

definition floor_log2_quot :: "int \<Rightarrow> int \<Rightarrow> int" where
  "floor_log2_quot n d =
     (let t = bitlen n - bitlen d
      in if (if 0 \<le> t then d * 2 ^ nat t \<le> n else d \<le> n * 2 ^ nat (- t)) then t else t - 1)"

definition round_half_even_div :: "int \<Rightarrow> int \<Rightarrow> int" where
  "round_half_even_div n d =
     (let q = n div d; r = n mod d
      in if 2 * r < d then q else if d < 2 * r then q + 1 else if even q then q else q + 1)"

definition round_to_double :: "int \<Rightarrow> int \<Rightarrow> pyfloat" where
  "round_to_double n d =
     (if n = 0 then Finite 0 0
      else let e = floor_log2_quot n d;
               p = max e (- 1022) - 52;
               m = (if 0 \<le> p then round_half_even_div n (d * 2 ^ nat p)
                    else round_half_even_div (n * 2 ^ nat (- p)) d)
           in if 0 \<le> p \<and> 2 ^ 1024 \<le> m * 2 ^ nat p then Infinity else Finite m p)"

text \<open>
  \<open>float(text)\<close> for a text of digits and dots: a literal has at most one dot and at least
  one digit (\<open>1.\<close> and \<open>.5\<close> are literals, \<open>.\<close> and \<open>1.2.3\<close> are not).
\<close>

definition py_float :: "string \<Rightarrow> py_error + pyfloat" where
  "py_float s =
     (if length (filter (\<lambda>c. c = CHR ''.'') s) \<le> 1 \<and> filter is_digit s \<noteq> []
      then Inr (round_to_double (int_of_digits (filter is_digit s))
                  (10 ^ length (filter is_digit (dropWhile is_digit s))))
      else Inl ValueError)"

text \<open>
  \<open>x * c\<close> for a positive whole number \<open>c\<close> (1000 and 1000000 are binary64 numbers), and
  \<open>int(x)\<close>, which truncates and raises \<open>OverflowError\<close> on infinity.
\<close>

definition fmul :: "pyfloat \<Rightarrow> int \<Rightarrow> pyfloat" where
  "fmul x c =
     (case x of
        Infinity \<Rightarrow> Infinity
      | Finite m p \<Rightarrow> (if 0 \<le> p then round_to_double (m * c * 2 ^ nat p) 1
                       else round_to_double (m * c) (2 ^ nat (- p))))"

definition py_int :: "pyfloat \<Rightarrow> py_error + int" where
  "py_int x =
     (case x of
        Infinity \<Rightarrow> Inl OverflowError
      | Finite m p \<Rightarrow> Inr (if 0 \<le> p then m * 2 ^ nat p else m div 2 ^ nat (- p)))"

section \<open>The shorthand numeric parser\<close>

text \<open>
  \<open>_shorthand_to_int\<close>. After the commas are removed and the text is stripped, the pattern
  \<open>^([\d\.]+)\s*([kKmM]?)$\<close> matches exactly when the text is a non-empty run of digits and
  dots, then white space, then at most one suffix letter. Without a match the digits of
  the text are converted inside a \<open>try\<close>; with a match \<open>float\<close> and \<open>int\<close> run unguarded.
\<close>

definition shorthand_to_int :: "string \<Rightarrow> py_error + int option" where
  "shorthand_to_int s0 =
     (if s0 = [] then Inr None
      else let s = strip (filter (\<lambda>c. c \<noteq> CHR '','') s0);
               g1 = takeWhile is_numch s;
               g2 = dropWhile is_space (dropWhile is_numch s)
           in if g1 \<noteq> [] \<and> (g2 = [] \<or> (length g2 = 1 \<and> is_suffix_ch (hd g2)))
              then (case py_float g1 of
                      Inl e \<Rightarrow> Inl e
                    | Inr num \<Rightarrow>
                        (case (if g2 = ''k'' \<or> g2 = ''K'' then py_int (fmul num 1000)
                               else if g2 = ''m'' \<or> g2 = ''M'' then py_int (fmul num 1000000)
                               else py_int num) of
                           Inl e \<Rightarrow> Inl e
                         | Inr n \<Rightarrow> Inr (Some n)))
              else (case py_int_of_digits (filter is_digit s) of
                      Inl e \<Rightarrow> Inr None
                    | Inr n \<Rightarrow> Inr (Some n)))"

text \<open>
  \<open>_parse_count_from_text\<close>: the leftmost match of \<open>([\d,.]+[kKmM]?)\<close> is the first maximal
  run of digits, commas and dots, with the suffix letter that may follow it.
\<close>

definition first_count_token :: "string \<Rightarrow> string option" where
  "first_count_token text =
     (let t = dropWhile (\<lambda>c. \<not> is_countch c) text;
          run = takeWhile is_countch t;
          rest = dropWhile is_countch t
      in if run = [] then None
         else Some (run @ (if rest \<noteq> [] \<and> is_suffix_ch (hd rest) then [hd rest] else [])))"

definition parse_count_from_text :: "string \<Rightarrow> py_error + int option" where
  "parse_count_from_text text =
     (if text = [] then Inr None
      else case first_count_token text of
             None \<Rightarrow> Inr None
           | Some g \<Rightarrow> shorthand_to_int g)"

section \<open>Text operations used by the extractor\<close>

definition starts_with :: "string \<Rightarrow> string \<Rightarrow> bool" where
  "starts_with p s = (take (length p) s = p)"

definition lower :: "char \<Rightarrow> char" where
  "lower c = (case map_of (zip ''ABCDEFGHIJKLMNOPQRSTUVWXYZ'' ''abcdefghijklmnopqrstuvwxyz'') c of
                Some l \<Rightarrow> l
              | None \<Rightarrow> c)"

text \<open>\<open>after_first sep s\<close> is what follows the leftmost occurrence of \<open>sep\<close> in \<open>s\<close>.\<close>

fun after_first :: "string \<Rightarrow> string \<Rightarrow> string option" where
  "after_first sep [] = (if sep = [] then Some [] else None)"
| "after_first sep (c # cs) =
     (if starts_with sep (c # cs) then Some (drop (length sep) (c # cs)) else after_first sep cs)"

definition contains :: "string \<Rightarrow> string \<Rightarrow> bool" where
  "contains sub s = (after_first sub s \<noteq> None)"

lemma after_first_shorter:
  "after_first sep s = Some r \<Longrightarrow> sep \<noteq> [] \<Longrightarrow> length r < length s"
  by (induction s) (auto split: if_splits)

text \<open>\<open>s.split(sep)[-1]\<close>: what follows the last of the occurrences found from left to right.\<close>

function split_last :: "string \<Rightarrow> string \<Rightarrow> string" where
  "split_last sep s =
     (if sep = [] then s
      else case after_first sep s of None \<Rightarrow> s | Some r \<Rightarrow> split_last sep r)"
  by pat_completeness auto
termination
  by (relation "measure (\<lambda>(sep, s). length s)") (auto dest: after_first_shorter)

declare split_last.simps [simp del]

fun join :: "string \<Rightarrow> string list \<Rightarrow> string" where
  "join sep [] = []"
| "join sep [x] = x"
| "join sep (x # y # ys) = x @ sep @ join sep (y # ys)"

text \<open>\<open>list(dict.fromkeys(xs))\<close>: duplicates removed, the first occurrence kept.\<close>

definition fromkeys :: "'a list \<Rightarrow> 'a list" where
  "fromkeys xs = rev (remdups (rev xs))"

section \<open>The parsed document\<close>

text \<open>
  The extractor reads the tree that the HTML parser built: a \<open>Tag\<close> has a name, its
  attribute dictionary and its children; \<open>Text\<close> is a string of the document. (Comments
  and the like take no part in any operation used here.) An element is located by the
  node itself together with its ancestors, the nearest first, since CSS selectors and
  \<open>find_parent\<close> look upwards beyond the element they are called on.
\<close>

datatype node = Text string | Tag string "(string \<times> string) list" "node list"

type_synonym element = "node list \<times> node"

fun is_tag :: "node \<Rightarrow> bool" where
  "is_tag (Tag n as cs) = True"
| "is_tag (Text s) = False"

fun tag_name :: "node \<Rightarrow> string" where
  "tag_name (Tag n as cs) = n"
| "tag_name (Text s) = []"

fun get_attr :: "node \<Rightarrow> string \<Rightarrow> string option" where
  "get_attr (Tag n as cs) k = map_of as k"
| "get_attr (Text s) k = None"

fun descendants_ctx :: "node list \<Rightarrow> node \<Rightarrow> element list" where
  "descendants_ctx anc (Text s) = []"
| "descendants_ctx anc (Tag n as cs) =
     concat (map (\<lambda>c. (Tag n as cs # anc, c) # descendants_ctx (Tag n as cs # anc) c) cs)"

text \<open>The tags below an element, in document order.\<close>

definition descendant_tags :: "element \<Rightarrow> element list" where
  "descendant_tags el = filter (\<lambda>d. is_tag (snd d)) (descendants_ctx (fst el) (snd el))"

definition find_all :: "(element \<Rightarrow> bool) \<Rightarrow> element \<Rightarrow> element list" where
  "find_all P el = filter P (descendant_tags el)"

definition find_first :: "(element \<Rightarrow> bool) \<Rightarrow> element \<Rightarrow> element option" where
  "find_first P el = (case find_all P el of [] \<Rightarrow> None | d # ds \<Rightarrow> Some d)"

fun strings :: "node \<Rightarrow> string list" where
  "strings (Text s) = [s]"
| "strings (Tag n as cs) = concat (map strings cs)"

text \<open>\<open>get_text(sep, strip=True)\<close>: every string stripped, the empty ones dropped.\<close>

definition get_text :: "string \<Rightarrow> element \<Rightarrow> string" where
  "get_text sep el = join sep (filter (\<lambda>s. s \<noteq> []) (map strip (strings (snd el))))"

definition named :: "string \<Rightarrow> element \<Rightarrow> bool" where
  "named n el = (is_tag (snd el) \<and> tag_name (snd el) = n)"

definition attr_is :: "string \<Rightarrow> string \<Rightarrow> element \<Rightarrow> bool" where
  "attr_is k v el = (get_attr (snd el) k = Some v)"

definition has_attr :: "string \<Rightarrow> element \<Rightarrow> bool" where
  "has_attr k el = (get_attr (snd el) k \<noteq> None)"

text \<open>\<open>find_parent("a", href=True)\<close>: the nearest ancestor that is a link with an href.\<close>

definition find_parent_link :: "element \<Rightarrow> node option" where
  "find_parent_link el =
     (case filter (\<lambda>a. is_tag a \<and> tag_name a = ''a'' \<and> get_attr a ''href'' \<noteq> None) (fst el) of
        [] \<Rightarrow> None
      | a # as \<Rightarrow> Some a)"

text \<open>
  The selector \<open>div[role="group"] [data-testid="..."]\<close>: an element with that test id below
  some \<open>div\<close> whose role is \<open>group\<close>, wherever in the document that \<open>div\<close> stands.
\<close>

definition in_action_group :: "string \<Rightarrow> element \<Rightarrow> bool" where
  "in_action_group testid el =
     (attr_is ''data-testid'' testid el \<and>
      (\<exists>a \<in> set (fst el). is_tag a \<and> tag_name a = ''div'' \<and> get_attr a ''role'' = Some ''group''))"

section \<open>The record extractor\<close>

text \<open>
  One row of the data frame. Every field starts as in the source: \<open>None\<close>, and the empty
  list for hashtags and mentions.
\<close>

record tweet_record =
  tweet_id :: "string option"
  display_name :: "string option"
  handle :: "string option"
  username :: "string option"
  timestamp_iso :: "string option"
  timestamp_relative :: "string option"
  content :: "string option"
  hashtags :: "string list"
  mentions :: "string list"
  reply_count :: "int option"
  retweet_count :: "int option"
  like_count :: "int option"
  view_count :: "int option"

definition empty_record :: tweet_record where
  "empty_record =
     \<lparr>tweet_id = None, display_name = None, handle = None, username = None,
      timestamp_iso = None, timestamp_relative = None, content = None,
      hashtags = [], mentions = [],
      reply_count = None, retweet_count = None, like_count = None, view_count = None\<rparr>"

text \<open>\<open>try: ... except Exception: field = None\<close> around a count.\<close>

definition or_none :: "py_error + 'a option \<Rightarrow> 'a option" where
  "or_none r = (case r of Inl e \<Rightarrow> None | Inr v \<Rightarrow> v)"

text \<open>The identity block: handle from the author link's href, display name from its span.\<close>

definition extract_user :: "element \<Rightarrow> tweet_record \<Rightarrow> tweet_record" where
  "extract_user tb rec =
     (case find_first (attr_is ''data-testid'' ''User-Name'') tb of
        None \<Rightarrow> rec
      | Some user_block \<Rightarrow>
          let rec1 =
                (case find_first (named ''a'') user_block of
                   None \<Rightarrow> rec
                 | Some a \<Rightarrow>
                     let href = (case get_attr (snd a) ''href'' of Some h \<Rightarrow> h | None \<Rightarrow> []);
                         r1 = (if href \<noteq> []
                               then rec\<lparr>handle :=
                                      Some (rev (takeWhile (\<lambda>c. c \<noteq> CHR ''/'')
                                              (dropWhile (\<lambda>c. c = CHR ''/'') (rev href))))\<rparr>
                               else rec)
                     in (case find_first (named ''span'') a of
                           None \<Rightarrow> r1
                         | Some name_span \<Rightarrow> r1\<lparr>display_name := Some (get_text [] name_span)\<rparr>))
          in if (username rec1 = None \<or> username rec1 = Some [])
                \<and> handle rec1 \<noteq> None \<and> handle rec1 \<noteq> Some []
             then rec1\<lparr>username := handle rec1\<rparr> else rec1)"

text \<open>The time element, and the item id from the permalink that wraps it.\<close>

definition extract_time :: "element \<Rightarrow> tweet_record \<Rightarrow> tweet_record" where
  "extract_time tb rec =
     (case find_first (named ''time'') tb of
        None \<Rightarrow> rec
      | Some time_tag \<Rightarrow>
          let r1 = rec\<lparr>timestamp_iso := get_attr (snd time_tag) ''datetime'',
                       timestamp_relative := Some (get_text [] time_tag)\<rparr>
          in (case find_parent_link time_tag of
                None \<Rightarrow> r1
              | Some parent_a \<Rightarrow>
                  let href = (case get_attr parent_a ''href'' of Some h \<Rightarrow> h | None \<Rightarrow> [])
                  in if contains ''/status/'' href
                     then r1\<lparr>tweet_id :=
                            Some (takeWhile (\<lambda>c. c \<noteq> CHR ''?'') (split_last ''/status/'' href))\<rparr>
                     else r1))"

text \<open>
  One link of the content block: a hashtag, a mention, or neither.
  \<open>re.match(r"^/[^/]+$", href)\<close> holds for a slash followed by at least one character,
  none of them a slash.
\<close>

definition classify_link :: "string list \<times> string list \<Rightarrow> element \<Rightarrow> string list \<times> string list" where
  "classify_link acc t =
     (let href = (case get_attr (snd t) ''href'' of Some h \<Rightarrow> h | None \<Rightarrow> []);
          txt = get_text [] t
      in if starts_with ''/hashtag/'' href \<or> starts_with ''#'' txt
         then (fst acc @ [txt], snd acc)
         else if starts_with ''@'' txt
         then (fst acc, snd acc @ [txt])
         else if starts_with ''/'' href \<and> tl href \<noteq> [] \<and> CHR ''/'' \<notin> set (tl href)
                 \<and> \<not> starts_with ''/hashtag'' href
         then (fst acc, snd acc @ [''@'' @ dropWhile (\<lambda>c. c = CHR ''/'') href])
         else acc)"

text \<open>
  The content block. Links are classified only when the block is found; without one the
  whole visible text of the item is the content and both lists stay as they were.
\<close>

definition extract_content :: "element \<Rightarrow> tweet_record \<Rightarrow> tweet_record" where
  "extract_content tb rec =
     (case find_first (attr_is ''data-testid'' ''tweetText'') tb of
        Some content_el \<Rightarrow>
          let tags = find_all (\<lambda>t. named ''a'' t \<and> has_attr ''href'' t) content_el;
              acc = foldl classify_link (hashtags rec, mentions rec) tags
          in rec\<lparr>content := Some (get_text '' '' content_el),
                  hashtags := fromkeys (fst acc),
                  mentions := fromkeys (snd acc)\<rparr>
      | None \<Rightarrow> rec\<lparr>content := Some (get_text '' '' tb)\<rparr>)"

text \<open>The three engagement controls, each inside its own \<open>try\<close>.\<close>

definition extract_count :: "string \<Rightarrow> element \<Rightarrow> int option" where
  "extract_count testid tb =
     or_none (case find_first (in_action_group testid) tb of
                None \<Rightarrow> Inr None
              | Some btn \<Rightarrow> parse_count_from_text (get_text '' '' btn))"

text \<open>
  The view count. \<open>views_search\<close> is the leftmost match of
  \<open>([\d,.]+[kKmM]?)\s*views?\<close>, letters compared without case: at a given start the run of
  digits, commas and dots is maximal, the suffix letter is taken when present, and the
  word must follow the white space.
\<close>

definition contains_view :: "string \<Rightarrow> bool" where
  "contains_view s = contains ''view'' (map lower s)"

definition views_match_here :: "string \<Rightarrow> string option" where
  "views_match_here s =
     (let run = takeWhile is_countch s;
          rest = dropWhile is_countch s;
          suf = (if rest \<noteq> [] \<and> is_suffix_ch (hd rest) then [hd rest] else []);
          rest' = drop (length suf) rest
      in if run \<noteq> [] \<and> starts_with ''view'' (map lower (dropWhile is_space rest'))
         then Some (run @ suf) else None)"

fun views_search :: "string \<Rightarrow> string option" where
  "views_search [] = None"
| "views_search (c # cs) =
     (case views_match_here (c # cs) of Some g \<Rightarrow> Some g | None \<Rightarrow> views_search cs)"

definition has_view_label :: "element \<Rightarrow> bool" where
  "has_view_label d =
     (case get_attr (snd d) ''aria-label'' of None \<Rightarrow> False | Some l \<Rightarrow> contains_view l)"

definition extract_views :: "element \<Rightarrow> int option" where
  "extract_views tb =
     or_none (case find_first has_view_label tb of
                Some view_elem \<Rightarrow>
                  let vtxt = (case get_attr (snd view_elem) ''aria-label'' of
                                Some l \<Rightarrow> if l \<noteq> [] then l else get_text '' '' view_elem
                              | None \<Rightarrow> get_text '' '' view_elem)
                  in parse_count_from_text vtxt
              | None \<Rightarrow>
                  (case views_search (get_text '' '' tb) of
                     Some g \<Rightarrow> shorthand_to_int g
                   | None \<Rightarrow> Inr None))"

definition extract_record :: "element \<Rightarrow> tweet_record" where
  "extract_record tb =
     (extract_content tb (extract_time tb (extract_user tb empty_record)))
       \<lparr>reply_count := extract_count ''reply'' tb,
        retweet_count := extract_count ''retweet'' tb,
        like_count := extract_count ''like'' tb,
        view_count := extract_views tb\<rparr>"

text \<open>
  \<open>parse_html_to_df\<close>, from the parsed document on: its argument is the list of the nodes
  at the top of the document, below the document object itself. The item blocks are the
  elements with the test id \<open>tweet\<close>; when there is none, every \<open>div\<close> that holds a time
  element and a content block.
\<close>

definition document :: "node list \<Rightarrow> element" where
  "document nodes = ([], Tag ''[document]'' [] nodes)"

definition tweet_blocks :: "element \<Rightarrow> element list" where
  "tweet_blocks soup =
     (case find_all (attr_is ''data-testid'' ''tweet'') soup of
        [] \<Rightarrow> find_all (\<lambda>d. named ''div'' d
                            \<and> find_first (named ''time'') d \<noteq> None
                            \<and> find_first (attr_is ''data-testid'' ''tweetText'') d \<noteq> None)
                soup
      | b # bs \<Rightarrow> b # bs)"

definition parse_html_to_df :: "node list \<Rightarrow> tweet_record list" where
  "parse_html_to_df nodes = map extract_record (tweet_blocks (document nodes))"

section \<open>Rendered elements and the fingerprint resolver\<close>

text \<open>
  A rendered element is known through the answers of the browser driver:
  \<open>outer_html\<close> is the result of \<open>get_attribute("outerHTML")\<close>, and \<open>status_link\<close> the
  result of looking up a descendant link whose href contains \<open>/status/\<close> and reading its
  href. Either call may raise. The hash is the library's SHA-1, a parameter here.
\<close>

record web_element =
  outer_html :: "py_error + string option"
  status_link :: "py_error + string option"

text \<open>
  The leftmost match of \<open>/status/(\d+)\<close>: at the first position where the marker is
  followed by a digit, the run of digits captured.
\<close>

definition status_marker :: string where
  "status_marker = ''/status/''"

definition match_status_here :: "string \<Rightarrow> string option" where
  "match_status_here s =
     (if starts_with status_marker s
         \<and> takeWhile is_digit (drop (length status_marker) s) \<noteq> []
      then Some (takeWhile is_digit (drop (length status_marker) s))
      else None)"

fun status_id_search :: "string \<Rightarrow> string option" where
  "status_id_search [] = None"
| "status_id_search (c # cs) =
     (case match_status_here (c # cs) of
        Some i \<Rightarrow> Some i
      | None \<Rightarrow> status_id_search cs)"

definition or_empty :: "string option \<Rightarrow> string" where
  "or_empty v = (case v of None \<Rightarrow> [] | Some s \<Rightarrow> s)"

text \<open>The id found through the descendant link; a failure of the lookup gives none.\<close>

definition link_id :: "web_element \<Rightarrow> string option" where
  "link_id el =
     (case status_link el of
        Inl e \<Rightarrow> None
      | Inr href \<Rightarrow> status_id_search (or_empty href))"

definition fingerprint :: "(string \<Rightarrow> string) \<Rightarrow> web_element \<Rightarrow> py_error + string" where
  "fingerprint sha1_hexdigest el =
     (case outer_html el of
        Inl e \<Rightarrow> Inl e
      | Inr oh \<Rightarrow>
          let html = or_empty oh;
              tweet_id = (case status_id_search html of
                            Some i \<Rightarrow> Some i
                          | None \<Rightarrow> link_id el)
          in Inr (if tweet_id = None \<or> tweet_id = Some []
                  then ''sha1-'' @ sha1_hexdigest html
                  else the tweet_id))"

text \<open>One round's elements merged into the set; an element that raises is skipped.\<close>

definition add_fingerprints ::
  "(string \<Rightarrow> string) \<Rightarrow> web_element list \<Rightarrow> string set \<Rightarrow> string set" where
  "add_fingerprints sha1_hexdigest elems seen =
     foldl (\<lambda>acc el. case fingerprint sha1_hexdigest el of
                        Inl e \<Rightarrow> acc
                      | Inr fp \<Rightarrow> insert fp acc) seen elems"

section \<open>The incremental collector\<close>

text \<open>
  \<open>ensure_min_tweets_loaded\<close>. The driver's answers are \<open>page\<close>: \<open>page i\<close> is the result of
  enumerating the item elements in the round whose scroll counter is \<open>i\<close>, a list of
  elements or an exception. \<open>sleep\<close> is the library's \<open>time.sleep\<close>, a parameter like the
  hash: it returns, or it raises for a pause that it refuses (a negative one, say).
  Neither call is guarded in the source, so an exception of either leaves the function.
  The scrolling itself is guarded twice over and cannot raise. The loop state is the one
  of the source (\<open>seen\<close>, \<open>scrolls\<close>, \<open>stable_rounds\<close>, \<open>last_seen_count\<close>). Beside the count
  that the source returns, the result records how many rounds were begun and which exit
  was taken.
\<close>

datatype stop = TargetReached | Stalled | Exhausted

record collect_result =
  count :: int
  rounds :: nat
  reason :: stop

function collect_loop ::
  "(string \<Rightarrow> string) \<Rightarrow> ('p \<Rightarrow> py_error + unit) \<Rightarrow> (nat \<Rightarrow> py_error + web_element list)
     \<Rightarrow> int \<Rightarrow> int \<Rightarrow> 'p \<Rightarrow> string set \<Rightarrow> nat \<Rightarrow> nat \<Rightarrow> int
     \<Rightarrow> py_error + collect_result" where
  "collect_loop sha sleep page min_count max_scrolls pause
     seen scrolls stable_rounds last_seen_count =
     (if int scrolls < max_scrolls
      then case page scrolls of
             Inl e \<Rightarrow> Inl e
           | Inr elems \<Rightarrow>
               let seen' = add_fingerprints sha elems seen;
                   current_count = int (card seen')
               in if min_count \<le> current_count
                  then Inr \<lparr>count = current_count, rounds = scrolls + 1,
                            reason = TargetReached\<rparr>
                  else let stable' = (if current_count \<le> last_seen_count
                                      then stable_rounds + 1 else 0)
                       in if 6 \<le> stable'
                          then Inr \<lparr>count = int (card seen'), rounds = scrolls + 1,
                                    reason = Stalled\<rparr>
                          else case sleep pause of
                                 Inl e \<Rightarrow> Inl e
                               | Inr u \<Rightarrow>
                                   collect_loop sha sleep page min_count max_scrolls pause
                                     seen' (scrolls + 1) stable' current_count
      else Inr \<lparr>count = int (card seen), rounds = scrolls, reason = Exhausted\<rparr>)"
  by pat_completeness auto
termination
  by (relation "measure (\<lambda>(sha, sleep, page, min_count, max_scrolls, pause, seen, scrolls, rest).
                           nat (max_scrolls - int scrolls))") auto

declare collect_loop.simps [simp del]

definition collect ::
  "(string \<Rightarrow> string) \<Rightarrow> ('p \<Rightarrow> py_error + unit) \<Rightarrow> (nat \<Rightarrow> py_error + web_element list)
     \<Rightarrow> int \<Rightarrow> int \<Rightarrow> 'p \<Rightarrow> py_error + collect_result" where
  "collect sha sleep page min_count max_scrolls pause =
     collect_loop sha sleep page min_count max_scrolls pause {} 0 0 0"

definition ensure_min_tweets_loaded ::
  "(string \<Rightarrow> string) \<Rightarrow> ('p \<Rightarrow> py_error + unit) \<Rightarrow> (nat \<Rightarrow> py_error + web_element list)
     \<Rightarrow> int \<Rightarrow> int \<Rightarrow> 'p \<Rightarrow> py_error + int" where
  "ensure_min_tweets_loaded sha sleep page min_count max_scrolls pause =
     (case collect sha sleep page min_count max_scrolls pause of
        Inl e \<Rightarrow> Inl e
      | Inr res \<Rightarrow> Inr (count res))"

text \<open>
  What a source of elements amounts to, round by round, when every enumeration succeeds
  and \<open>src i\<close> is the list enumerated in round \<open>i\<close>: the set of fingerprints after \<open>n\<close>
  rounds, its size, and the number of rounds in a row, up to the \<open>n\<close>-th, that brought no
  growth. The round with index \<open>r\<close> is the \<open>Suc r\<close>-th.
\<close>

fun seen_after :: "(string \<Rightarrow> string) \<Rightarrow> (nat \<Rightarrow> web_element list) \<Rightarrow> nat \<Rightarrow> string set" where
  "seen_after sha page 0 = {}"
| "seen_after sha page (Suc n) = add_fingerprints sha (page n) (seen_after sha page n)"

definition count_after :: "(string \<Rightarrow> string) \<Rightarrow> (nat \<Rightarrow> web_element list) \<Rightarrow> nat \<Rightarrow> int" where
  "count_after sha page n = int (card (seen_after sha page n))"

fun stall_after :: "(string \<Rightarrow> string) \<Rightarrow> (nat \<Rightarrow> web_element list) \<Rightarrow> nat \<Rightarrow> nat" where
  "stall_after sha page 0 = 0"
| "stall_after sha page (Suc n) =
     (if count_after sha page (Suc n) \<le> count_after sha page n
      then stall_after sha page n + 1 else 0)"

text \<open>The unique count in the round with index \<open>r\<close>.\<close>

definition unique_count :: "(string \<Rightarrow> string) \<Rightarrow> (nat \<Rightarrow> web_element list) \<Rightarrow> nat \<Rightarrow> int" where
  "unique_count sha page r = count_after sha page (Suc r)"

section \<open>Container capture\<close>

text \<open>
  \<open>grab_entire_div_html\<close>. The driver answers each container selector with the markup of
  the element it waited for (or raises, or has no markup), and enumerates the item
  elements. \<open>count_sub\<close> is \<open>str.count\<close>.
\<close>

record capture_env =
  container_html :: "string \<Rightarrow> py_error + string option"
  tweet_elements :: "py_error + web_element list"

definition dquote :: char where
  "dquote = CHR 0x22"

definition squote :: char where
  "squote = CHR 0x27"

definition selectors :: "string list" where
  "selectors =
     [''div.css-175oi2r.r-f8sm7e.r-13qz1uu.r-1ye8kvj'',
      ''div[data-testid='' @ [dquote] @ ''primaryColumn'' @ [dquote]
        @ ''] div[data-testid='' @ [dquote] @ ''timeline'' @ [dquote] @ '']'',
      ''div[role='' @ [dquote] @ ''feed'' @ [dquote] @ '']'',
      ''div[aria-label*='' @ [dquote] @ ''Timeline'' @ [dquote] @ '']'']"

fun first_capture :: "(string \<Rightarrow> py_error + string option) \<Rightarrow> string list \<Rightarrow> string option" where
  "first_capture look [] = None"
| "first_capture look (sel # sels) =
     (case look sel of
        Inr (Some outer) \<Rightarrow>
          if outer \<noteq> [] \<and> 50 < length outer then Some outer else first_capture look sels
      | Inr None \<Rightarrow> first_capture look sels
      | Inl e \<Rightarrow> first_capture look sels)"

function count_sub :: "string \<Rightarrow> string \<Rightarrow> nat" where
  "count_sub sub s =
     (if sub = [] then length s + 1
      else case after_first sub s of None \<Rightarrow> 0 | Some r \<Rightarrow> 1 + count_sub sub r)"
  by pat_completeness auto
termination
  by (relation "measure (\<lambda>(sub, s). length s)") (auto dest: after_first_shorter)

declare count_sub.simps [simp del]

text \<open>The wrapper: an element whose markup cannot be read is left out.\<close>

definition wrapper_parts :: "web_element list \<Rightarrow> string list" where
  "wrapper_parts tweets =
     concat (map (\<lambda>t. case outer_html t of Inl e \<Rightarrow> [] | Inr oh \<Rightarrow> [or_empty oh]) tweets)"

definition wrapper :: "web_element list \<Rightarrow> string" where
  "wrapper tweets =
     join [CHR 0x0A]
       ([''<div id='' @ [squote] @ ''x-scraper-wrapper'' @ [squote] @ ''>'']
        @ wrapper_parts tweets @ [''</div>''])"

definition grab_entire_div_html :: "capture_env \<Rightarrow> py_error + string option" where
  "grab_entire_div_html env =
     (let html = first_capture (container_html env) selectors
      in case tweet_elements env of
           Inl e \<Rightarrow> Inl e
         | Inr tweets \<Rightarrow>
             let html' =
                   (if html = None \<or> html = Some []
                       \<or> (0 < length tweets
                           \<and> int (count_sub ''<article'' (or_empty html))
                               < max 10 (int (length tweets) div 4))
                    then Some (wrapper tweets) else html)
             in Inr (if html' = None \<or> html' = Some [] then None else html'))"

section \<open>The session orchestrator\<close>

text \<open>
  A row of the aggregate: a record with the hashtag that was searched. The aggregate is
  the concatenation of the batches with \<open>drop_duplicates(subset=["tweet_id"])\<close> applied,
  which keeps the first row of every key; the data-frame library compares keys by value
  and takes missing keys to be equal to one another, so \<open>None\<close> is a key like any other.
\<close>

record row = tweet_record +
  queried_hashtag :: string

definition with_hashtag :: "string \<Rightarrow> tweet_record \<Rightarrow> row" where
  "with_hashtag tag r =
     \<lparr>tweet_id = tweet_id r, display_name = display_name r, handle = handle r,
      username = username r, timestamp_iso = timestamp_iso r,
      timestamp_relative = timestamp_relative r, content = content r,
      hashtags = hashtags r, mentions = mentions r,
      reply_count = reply_count r, retweet_count = retweet_count r,
      like_count = like_count r, view_count = view_count r,
      queried_hashtag = tag\<rparr>"

fun drop_dups :: "('a \<Rightarrow> 'k) \<Rightarrow> 'k list \<Rightarrow> 'a list \<Rightarrow> 'a list" where
  "drop_dups key seen [] = []"
| "drop_dups key seen (x # xs) =
     (if key x \<in> set seen then drop_dups key seen xs
      else x # drop_dups key (key x # seen) xs)"

definition drop_duplicates :: "('a \<Rightarrow> 'k) \<Rightarrow> 'a list \<Rightarrow> 'a list" where
  "drop_duplicates key xs = drop_dups key [] xs"

definition aggregate :: "row list list \<Rightarrow> row list" where
  "aggregate all_dfs = drop_duplicates tweet_id (concat all_dfs)"

text \<open>
  The world around one run: which of the calls that can raise do raise, the date, the
  HTML parser, the hash function and \<open>time.sleep\<close>; and for every hashtag what the browser shows once it
  has been searched. The state of the scraper is whether it holds a driver; the calls of
  \<open>close\<close> and of the driver's \<open>quit\<close> are counted. \<open>click_explore\<close> and \<open>click_latest_tab\<close>
  catch everything and only report a flag that is logged, so they are left out.
\<close>

record run_env =
  mkdir_fails :: bool
  driver_path_exists :: bool
  chrome_fails :: bool
  window_size_fails :: bool
  login_fails :: bool
  save_fails :: bool
  quit_fails :: bool
  today :: string
  lxml :: "string \<Rightarrow> node list"
  hashlib_sha1 :: "string \<Rightarrow> string"
  time_sleep :: "rat \<Rightarrow> py_error + unit"

record tag_env =
  search_fails :: bool
  feed :: "nat \<Rightarrow> py_error + web_element list"
  capture :: capture_env

record scraper_state =
  driver :: bool
  close_calls :: nat
  quit_calls :: nat

record run_result =
  outcome :: "py_error + string"
  persisted :: "row list option"
  final_state :: scraper_state

text \<open>
  \<open>start_driver\<close>: without the driver binary it raises before anything is launched; the
  browser is held from the moment it is launched, also when the next call raises.
\<close>

definition start_driver :: "run_env \<Rightarrow> scraper_state \<Rightarrow> scraper_state \<times> (py_error + unit)" where
  "start_driver env st =
     (if \<not> driver_path_exists env then (st, Inl FileNotFoundError)
      else if chrome_fails env then (st, Inl WebDriverException)
      else if window_size_fails env then (st\<lparr>driver := True\<rparr>, Inl WebDriverException)
      else (st\<lparr>driver := True\<rparr>, Inr ()))"

text \<open>\<open>close\<close>: the driver's \<open>quit\<close> runs inside a \<open>try\<close> whose handler only logs.\<close>

definition close :: "run_env \<Rightarrow> scraper_state \<Rightarrow> scraper_state \<times> (py_error + unit)" where
  "close env st =
     (let st1 = st\<lparr>close_calls := close_calls st + 1\<rparr>
      in if driver st1
         then (case (if quit_fails env then Inl WebDriverException else Inr ()) of
                 Inl e \<Rightarrow> (st1\<lparr>quit_calls := quit_calls st1 + 1\<rparr>, Inr ())
               | Inr u \<Rightarrow> (st1\<lparr>quit_calls := quit_calls st1 + 1\<rparr>, Inr ()))
         else (st1, Inr ()))"

text \<open>
  The loop over the hashtags: a raise ends it, a hashtag without markup is skipped. The
  collector is given the budget of 300 rounds and the pause of 0.8 seconds; a pause of
  one second ends the processing of a hashtag.
\<close>

fun process_tags ::
  "run_env \<Rightarrow> int \<Rightarrow> (string \<times> tag_env) list \<Rightarrow> row list list \<Rightarrow> py_error + row list list" where
  "process_tags env per_tag_target [] all_dfs = Inr all_dfs"
| "process_tags env per_tag_target ((tag, te) # rest) all_dfs =
     (if search_fails te then Inl WebDriverException
      else case ensure_min_tweets_loaded (hashlib_sha1 env) (time_sleep env) (feed te)
                  per_tag_target 300 (4 / 5) of
             Inl e \<Rightarrow> Inl e
           | Inr loaded \<Rightarrow>
               (case grab_entire_div_html (capture te) of
                  Inl e \<Rightarrow> Inl e
                | Inr None \<Rightarrow> process_tags env per_tag_target rest all_dfs
                | Inr (Some html) \<Rightarrow>
                    let df = parse_html_to_df (lxml env html);
                        all_dfs' = (if df \<noteq> [] then all_dfs @ [map (with_hashtag tag) df]
                                    else all_dfs)
                    in case time_sleep env 1 of
                         Inl e \<Rightarrow> Inl e
                       | Inr u \<Rightarrow> process_tags env per_tag_target rest all_dfs'))"

definition truthy :: "string option \<Rightarrow> bool" where
  "truthy v = (v \<noteq> None \<and> v \<noteq> Some [])"

definition out_path :: "run_env \<Rightarrow> string" where
  "out_path env = ''../io/'' @ today env @ ''/tweets.parquet''"

text \<open>The body of the \<open>try\<close>: its outcome and what was written.\<close>

definition run_body ::
  "run_env \<Rightarrow> string option \<Rightarrow> string option \<Rightarrow> (string \<times> tag_env) list \<Rightarrow> int
     \<Rightarrow> (py_error + string) \<times> row list option" where
  "run_body env login_name login_password hashtags_in per_tag_target =
     (if truthy login_name \<and> truthy login_password \<and> login_fails env
      then (Inl WebDriverException, None)
      else case process_tags env per_tag_target hashtags_in [] of
             Inl e \<Rightarrow> (Inl e, None)
           | Inr all_dfs \<Rightarrow>
               let final = (if all_dfs \<noteq> [] then aggregate all_dfs else [])
               in if save_fails env then (Inl OSError, None)
                  else (Inr (out_path env), Some final))"

text \<open>
  \<open>run\<close>: the output directory is made and the driver started before the \<open>try\<close>; the
  \<open>finally\<close> calls \<open>close\<close>, and an exception of \<open>close\<close> would replace the outcome.
\<close>

definition run ::
  "run_env \<Rightarrow> string option \<Rightarrow> string option \<Rightarrow> (string \<times> tag_env) list \<Rightarrow> int
     \<Rightarrow> run_result" where
  "run env login_name login_password hashtags_in per_tag_target =
     (let st0 = \<lparr>driver = False, close_calls = 0, quit_calls = 0\<rparr>
      in if mkdir_fails env
         then \<lparr>outcome = Inl OSError, persisted = None, final_state = st0\<rparr>
         else case start_driver env st0 of
                (st1, Inl e) \<Rightarrow> \<lparr>outcome = Inl e, persisted = None, final_state = st1\<rparr>
              | (st1, Inr u) \<Rightarrow>
                  let body = run_body env login_name login_password hashtags_in per_tag_target
                  in case close env st1 of
                       (st2, Inl e) \<Rightarrow>
                         \<lparr>outcome = Inl e, persisted = snd body, final_state = st2\<rparr>
                     | (st2, Inr v) \<Rightarrow>
                         \<lparr>outcome = fst body, persisted = snd body, final_state = st2\<rparr>)"

section \<open>Notions used in the statements, and example inputs\<close>

text \<open>A float that is not negative.\<close>

definition nonneg_float :: "pyfloat \<Rightarrow> bool" where
  "nonneg_float x = (case x of Finite m p \<Rightarrow> 0 \<le> m | Infinity \<Rightarrow> True)"



text \<open>A rendered element whose markup holds a permalink with an id of \<open>i + 1\<close> sevens.\<close>

definition numbered :: "nat \<Rightarrow> web_element" where
  "numbered i =
     \<lparr>outer_html = Inr (Some (''<a href=/u/status/'' @ replicate (Suc i) (CHR ''7'') @ ''>'')),
      status_link = Inl WebDriverException\<rparr>"

text \<open>
  The collector started at the beginning of the round with index \<open>s\<close>, in the state that
  a source of elements whose enumeration does not fail has brought about by then; and
  what is known of its result.
\<close>

definition loop_from ::
  "(string \<Rightarrow> string) \<Rightarrow> ('p \<Rightarrow> py_error + unit) \<Rightarrow> (nat \<Rightarrow> web_element list)
     \<Rightarrow> int \<Rightarrow> int \<Rightarrow> 'p \<Rightarrow> nat \<Rightarrow> py_error + collect_result" where
  "loop_from sha sleep src min_count max_scrolls pause s =
     collect_loop sha sleep (\<lambda>i. Inr (src i)) min_count max_scrolls pause
       (seen_after sha src s) s (stall_after sha src s) (count_after sha src s)"

definition loop_spec ::
  "(string \<Rightarrow> string) \<Rightarrow> (nat \<Rightarrow> web_element list) \<Rightarrow> int \<Rightarrow> int \<Rightarrow> nat \<Rightarrow> collect_result \<Rightarrow> bool" where
  "loop_spec sha src min_count max_scrolls s res =
     (s \<le> rounds res
      \<and> int (rounds res) \<le> max (int s) max_scrolls
      \<and> count res = count_after sha src (rounds res)
      \<and> (\<forall>j. s < j \<and> j < rounds res \<longrightarrow>
             count_after sha src j < min_count \<and> stall_after sha src j < 6)
      \<and> (reason res = TargetReached \<longrightarrow>
             s < rounds res \<and> min_count \<le> count_after sha src (rounds res))
      \<and> (reason res = Stalled \<longrightarrow>
             s < rounds res \<and> count_after sha src (rounds res) < min_count
             \<and> 6 \<le> stall_after sha src (rounds res))
      \<and> (reason res = Exhausted \<longrightarrow>
             max_scrolls \<le> int (rounds res)
             \<and> (s < rounds res \<longrightarrow>
                  count_after sha src (rounds res) < min_count
                  \<and> stall_after sha src (rounds res) < 6)))"

text \<open>
  A source that shows nothing in its first six rounds and one item from then on, and a
  source that shows one item in its first eight rounds and two from then on.
\<close>

definition late_source :: "nat \<Rightarrow> web_element list" where
  "late_source i = (if i < 6 then [] else [numbered 0])"

definition two_plateau_source :: "nat \<Rightarrow> web_element list" where
  "two_plateau_source i = (if i < 8 then [numbered 0] else [numbered 0, numbered 1])"

text \<open>
  An item with a content block and the three engagement controls but nothing about
  views, and an item without a content block whose text and links mention a hashtag and
  an account.
\<close>

definition example_item :: node where
  "example_item =
     Tag ''article'' [(''data-testid'', ''tweet'')]
       [Tag ''div'' [(''data-testid'', ''tweetText'')] [Text ''hello''],
        Tag ''div'' [(''role'', ''group'')]
          [Tag ''button'' [(''data-testid'', ''reply'')] [Text ''12''],
           Tag ''button'' [(''data-testid'', ''retweet'')] [Text ''1.2K''],
           Tag ''button'' [(''data-testid'', ''like'')] [Text ''3M'']]]"

definition example_block :: element where
  "example_block = ([Tag ''[document]'' [] [example_item]], example_item)"

definition degraded_item :: node where
  "degraded_item =
     Tag ''article'' [(''data-testid'', ''tweet'')]
       [Tag ''span'' [] [Text ''promo #ad by @corp''],
        Tag ''a'' [(''href'', ''/hashtag/ad'')] [Text ''#ad''],
        Tag ''a'' [(''href'', ''/corp'')] [Text ''@corp'']]"

definition degraded_block :: element where
  "degraded_block = ([Tag ''[document]'' [] [degraded_item]], degraded_item)"



text \<open>
  An element whose markup holds a link to \<open>/u/status/\<close>, a tab character, \<open>42\<close>: the
  pattern finds no id in the markup, and the href that the browser reports for the link
  is the resolved address, in which the tab is gone.
\<close>

definition tabbed_markup :: string where
  "tabbed_markup =
     ''<article><a href='' @ [dquote] @ ''/u/status/'' @ [CHR 0x09] @ ''42'' @ [dquote]
       @ ''>x</a></article>''"

definition tabbed_link_element :: web_element where
  "tabbed_link_element =
     \<lparr>outer_html = Inr (Some tabbed_markup),
      status_link = Inr (Some ''https://x.com/u/status/42'')\<rparr>"

text \<open>An element with no permalink at all: the lookup of a link fails.\<close>

definition plain_element :: web_element where
  "plain_element =
     \<lparr>outer_html = Inr (Some ''<article>hello</article>''),
      status_link = Inl WebDriverException\<rparr>"

text \<open>
  A captured container is accepted when its markup exists and is longer than 50
  characters. In the example the third selector alone finds a container, with one
  item tag, while two item elements are enumerated.
\<close>

definition accepted :: "py_error + string option \<Rightarrow> bool" where
  "accepted r = (case r of Inr (Some outer) \<Rightarrow> outer \<noteq> [] \<and> 50 < length outer | _ \<Rightarrow> False)"

definition example_container :: string where
  "example_container =
     ''<div role=feed><article>one</article><span>and more to come</span></div>''"

definition example_capture :: capture_env where
  "example_capture =
     \<lparr>container_html = (\<lambda>sel. if sel = selectors ! 2 then Inr (Some example_container)
                                else Inl WebDriverException),
      tweet_elements = Inr [numbered 0, numbered 1]\<rparr>"

text \<open>A run in which nothing fails, to be varied.\<close>

definition quiet_env :: run_env where
  "quiet_env =
     \<lparr>mkdir_fails = False, driver_path_exists = True, chrome_fails = False,
      window_size_fails = False, login_fails = False, save_fails = False,
      quit_fails = False, today = ''03-11-2026'',
      lxml = (\<lambda>html. []), hashlib_sha1 = (\<lambda>s. []),
      time_sleep = (\<lambda>p. if p < 0 then Inl ValueError else Inr ())\<rparr>"

text \<open>
  A run over two hashtags. No container is found for either, one item element is
  enumerated for each, and the item that the parser finds in the wrapper has a content
  block but no time element, hence no item id.
\<close>

definition idless_item :: "string \<Rightarrow> node" where
  "idless_item txt =
     Tag ''article'' [(''data-testid'', ''tweet'')]
       [Tag ''div'' [(''data-testid'', ''tweetText'')] [Text txt]]"

definition idless_page :: "string \<Rightarrow> tag_env" where
  "idless_page txt =
     \<lparr>search_fails = False,
      feed = (\<lambda>i. Inr []),
      capture =
        \<lparr>container_html = (\<lambda>sel. Inl WebDriverException),
         tweet_elements =
           Inr [\<lparr>outer_html = Inr (Some (''<article data-testid=tweet><div data-testid=tweetText>''
                                          @ txt @ ''</div></article>'')),
                 status_link = Inl WebDriverException\<rparr>]\<rparr>\<rparr>"

definition idless_env :: run_env where
  "idless_env =
     quiet_env\<lparr>lxml := (\<lambda>html. if contains ''first'' html then [idless_item ''first'']
                               else [idless_item ''second''])\<rparr>"

section \<open>Properties of the aggregation\<close>

lemma drop_dups_keys:
  "set (map key (drop_dups key seen xs)) = set (map key xs) - set seen"
  by (induction xs arbitrary: seen) auto

lemma drop_dups_distinct: "distinct (map key (drop_dups key seen xs))"
proof (induction xs arbitrary: seen)
  case Nil
  show ?case by simp
next
  case (Cons x xs)
  have "key x \<notin> set (map key (drop_dups key (key x # seen) xs))"
    unfolding drop_dups_keys by simp
  with Cons show ?case by simp
qed

lemma drop_dups_find:
  "k \<notin> set seen \<Longrightarrow>
     find (\<lambda>y. key y = k) (drop_dups key seen xs) = find (\<lambda>y. key y = k) xs"
  by (induction xs arbitrary: seen) auto

text \<open>
  The part of the aggregation that concerns rows with an id: every id of the batches is
  kept once, and the row kept is the first one with that id.
\<close>

lemma aggregate_first_wins:
  "distinct (map tweet_id (aggregate all_dfs))
   \<and> set (map tweet_id (aggregate all_dfs)) = set (map tweet_id (concat all_dfs))
   \<and> find (\<lambda>y. tweet_id y = k) (aggregate all_dfs) = find (\<lambda>y. tweet_id y = k) (concat all_dfs)"
  unfolding aggregate_def drop_duplicates_def
  using drop_dups_distinct [of tweet_id "[]" "concat all_dfs"]
        drop_dups_keys [of tweet_id "[]" "concat all_dfs"]
        drop_dups_find [of k "[]" tweet_id "concat all_dfs"]
  by simp

text \<open>
  C1, at a run over the hashtags \<open>#a\<close> and \<open>#b\<close> whose pages show one item each, neither
  with an item id (no permalink around a time element) and with different contents.
  The two batches hold one row each, distinct records without an id, so both should
  appear in the aggregate; what \<open>run\<close> persists holds the first only. Rows that have no
  id are dropped as duplicates of one another.
\<close>

theorem run_drops_rows_without_id:
  "process_tags idless_env 500
     [(''#a'', idless_page ''first''), (''#b'', idless_page ''second'')] []
   = Inr ([with_hashtag ''#a'' (empty_record\<lparr>content := Some ''first''\<rparr>)]
          # [with_hashtag ''#b'' (empty_record\<lparr>content := Some ''second''\<rparr>)] # [])
   \<and> tweet_id (with_hashtag ''#a'' (empty_record\<lparr>content := Some ''first''\<rparr>)) = None
   \<and> tweet_id (with_hashtag ''#b'' (empty_record\<lparr>content := Some ''second''\<rparr>)) = None
   \<and> persisted (run idless_env None None
         [(''#a'', idless_page ''first''), (''#b'', idless_page ''second'')] 500)
       = Some [with_hashtag ''#a'' (empty_record\<lparr>content := Some ''first''\<rparr>)]"
  by code_simp

section \<open>Properties of the shorthand numeric parser\<close>

text \<open>
  C2, at the text \<open>1.2.3\<close>: the pattern matches (a run of digits and dots, no suffix), so
  the guarded fallback is not taken, and the conversion to a float raises \<open>ValueError\<close>;
  the parser does not return.
\<close>

theorem shorthand_to_int_raises:
  "shorthand_to_int ''1.2.3'' = Inl ValueError"
  by (simp add: shorthand_to_int_def strip_def is_space_def is_numch_def is_digit_def
        py_float_def)

section \<open>Properties of the record extractor\<close>

lemma digit_val_nonneg: "is_digit c \<Longrightarrow> 0 \<le> digit_val c"
  by (auto simp: is_digit_def digit_val_def)

lemma foldl_digits_nonneg:
  "0 \<le> acc \<Longrightarrow> \<forall>c \<in> set ds. is_digit c \<Longrightarrow>
     0 \<le> foldl (\<lambda>acc c. acc * 10 + digit_val c) acc ds"
  by (induction ds arbitrary: acc) (auto simp: digit_val_nonneg)

lemma int_of_digits_nonneg: "0 \<le> int_of_digits (filter is_digit s)"
  unfolding int_of_digits_def by (rule foldl_digits_nonneg) auto

lemma round_half_even_div_nonneg:
  "0 \<le> n \<Longrightarrow> 0 < d \<Longrightarrow> 0 \<le> round_half_even_div n d"
  by (auto simp: round_half_even_div_def Let_def pos_imp_zdiv_nonneg_iff)

lemma round_to_double_nonneg:
  "0 \<le> n \<Longrightarrow> 0 < d \<Longrightarrow> nonneg_float (round_to_double n d)"
  by (auto simp: round_to_double_def nonneg_float_def Let_def round_half_even_div_nonneg)

lemma py_float_nonneg: "py_float s = Inr x \<Longrightarrow> nonneg_float x"
  by (auto simp: py_float_def int_of_digits_nonneg round_to_double_nonneg split: if_splits)

lemma fmul_nonneg: "nonneg_float x \<Longrightarrow> 0 < c \<Longrightarrow> nonneg_float (fmul x c)"
  by (cases x) (auto simp: fmul_def nonneg_float_def [of "Finite _ _"] round_to_double_nonneg
                 intro!: round_to_double_nonneg mult_nonneg_nonneg)

lemma py_int_nonneg: "nonneg_float x \<Longrightarrow> py_int x = Inr n \<Longrightarrow> 0 \<le> n"
  by (cases x) (auto simp: py_int_def nonneg_float_def pos_imp_zdiv_nonneg_iff split: if_splits)

lemma shorthand_to_int_nonneg: "shorthand_to_int s = Inr (Some n) \<Longrightarrow> 0 \<le> n"
  unfolding shorthand_to_int_def Let_def
  by (auto simp: py_int_of_digits_def int_of_digits_nonneg
           split: if_splits sum.splits
           dest!: py_float_nonneg
           dest: py_int_nonneg fmul_nonneg [of _ 1000] fmul_nonneg [of _ 1000000])

lemma parse_count_from_text_nonneg: "parse_count_from_text t = Inr (Some n) \<Longrightarrow> 0 \<le> n"
  by (auto simp: parse_count_from_text_def split: if_splits option.splits
           dest: shorthand_to_int_nonneg)

lemma extract_count_nonneg: "extract_count testid tb = Some n \<Longrightarrow> 0 \<le> n"
  by (auto simp: extract_count_def or_none_def split: option.splits sum.splits
           dest: parse_count_from_text_nonneg)

lemma extract_views_nonneg: "extract_views tb = Some n \<Longrightarrow> 0 \<le> n"
  by (auto simp: extract_views_def or_none_def Let_def split: option.splits sum.splits if_splits
           dest: parse_count_from_text_nonneg shorthand_to_int_nonneg)

lemma extract_user_keeps:
  "content (extract_user tb r) = content r"
  "hashtags (extract_user tb r) = hashtags r"
  "mentions (extract_user tb r) = mentions r"
  by (simp_all add: extract_user_def Let_def split: option.splits)

lemma extract_time_keeps:
  "content (extract_time tb r) = content r"
  "hashtags (extract_time tb r) = hashtags r"
  "mentions (extract_time tb r) = mentions r"
  by (simp_all add: extract_time_def Let_def split: option.splits)

lemma extract_content_sets: "content (extract_content tb r) \<noteq> None"
  by (simp add: extract_content_def Let_def split: option.splits)

lemma extract_record_counts:
  "reply_count (extract_record tb) = extract_count ''reply'' tb"
  "retweet_count (extract_record tb) = extract_count ''retweet'' tb"
  "like_count (extract_record tb) = extract_count ''like'' tb"
  "view_count (extract_record tb) = extract_views tb"
  by (simp_all add: extract_record_def)

















text \<open>
  The no-break space is white space for the pattern of the view count: a text that reads
  \<open>1.2K\<close>, a no-break space, \<open>views\<close> gives the view count 1200.
\<close>

lemma views_search_no_break_space:
  "views_search (''1.2K'' @ [CHR 0xA0] @ ''views'') = Some ''1.2K''"
  by code_simp

lemma extract_views_no_break_space:
  "extract_views ([], Tag ''article'' [] [Text (''1.2K'' @ [CHR 0xA0] @ ''views'')]) = Some 1200"
  by code_simp



text \<open>
  C8. Every record that the extractor produces has a content (a string, possibly
  empty, never \<open>None\<close>), and each of its four counts is absent or an integer that is not
  negative.
\<close>

theorem item_record_invariant:
  assumes "r \<in> set (parse_html_to_df nodes)"
  shows "content r \<noteq> None
       \<and> (\<forall>n. reply_count r = Some n \<longrightarrow> 0 \<le> n)
       \<and> (\<forall>n. retweet_count r = Some n \<longrightarrow> 0 \<le> n)
       \<and> (\<forall>n. like_count r = Some n \<longrightarrow> 0 \<le> n)
       \<and> (\<forall>n. view_count r = Some n \<longrightarrow> 0 \<le> n)"
proof -
  from assms obtain tb where r: "r = extract_record tb"
    by (auto simp: parse_html_to_df_def)
  have "content r \<noteq> None"
    unfolding r by (simp add: extract_record_def extract_content_sets)
  then show ?thesis
    unfolding r extract_record_counts
    by (auto dest: extract_count_nonneg extract_views_nonneg)
qed

text \<open>C8 at the record of the example item.\<close>

theorem item_record_invariant_witness:
  "extract_record example_block \<in> set (parse_html_to_df [example_item])
   \<and> content (extract_record example_block) = Some ''hello''
   \<and> retweet_count (extract_record example_block) = Some 1200
   \<and> (0::int) \<le> 1200"
proof -
  have m: "extract_record example_block \<in> set (parse_html_to_df [example_item])"
    by code_simp
  have c: "content (extract_record example_block) = Some ''hello''"
    by code_simp
  have k: "retweet_count (extract_record example_block) = Some 1200"
    by code_simp
  from item_record_invariant [OF m] show ?thesis
    using m c k by simp
qed

text \<open>
  C10. An item block without a content block gives a record whose content is the whole
  visible text of the block and whose hashtags and mentions are empty, whatever the text
  and the links of the block are.
\<close>

theorem degraded_mode_no_links:
  assumes "tb \<in> set (tweet_blocks (document nodes))"
    and "find_first (attr_is ''data-testid'' ''tweetText'') tb = None"
  shows "extract_record tb \<in> set (parse_html_to_df nodes)
       \<and> content (extract_record tb) = Some (get_text '' '' tb)
       \<and> hashtags (extract_record tb) = []
       \<and> mentions (extract_record tb) = []"
proof -
  have "extract_record tb \<in> set (parse_html_to_df nodes)"
    using assms(1) by (simp add: parse_html_to_df_def)
  moreover have "content (extract_record tb) = Some (get_text '' '' tb)"
    using assms(2) by (simp add: extract_record_def extract_content_def)
  moreover have "hashtags (extract_record tb) = []"
    using assms(2)
    by (simp add: extract_record_def extract_content_def extract_time_keeps
          extract_user_keeps empty_record_def)
  moreover have "mentions (extract_record tb) = []"
    using assms(2)
    by (simp add: extract_record_def extract_content_def extract_time_keeps
          extract_user_keeps empty_record_def)
  ultimately show ?thesis by simp
qed

text \<open>
  C10 at the item without a content block: its text holds \<open>#ad\<close> and \<open>@corp\<close> and it
  has a hashtag link and an account link, yet both lists are empty.
\<close>

theorem degraded_mode_no_links_witness:
  "degraded_block \<in> set (tweet_blocks (document [degraded_item]))
   \<and> find_first (attr_is ''data-testid'' ''tweetText'') degraded_block = None
   \<and> content (extract_record degraded_block) = Some ''promo #ad by @corp #ad @corp''
   \<and> hashtags (extract_record degraded_block) = []
   \<and> mentions (extract_record degraded_block) = []"
proof -
  have h1: "degraded_block \<in> set (tweet_blocks (document [degraded_item]))"
    by code_simp
  have h2: "find_first (attr_is ''data-testid'' ''tweetText'') degraded_block = None"
    by code_simp
  have t: "get_text '' '' degraded_block = ''promo #ad by @corp #ad @corp''"
    by code_simp
  from degraded_mode_no_links [OF h1 h2] show ?thesis
    using h1 h2 by (simp add: t)
qed

section \<open>Properties of the incremental collector\<close>

text \<open>
  An enumeration that raises in a round that is run, and a pause that \<open>time.sleep\<close>
  refuses, end the collector with the exception.
\<close>

lemma collect_enumeration_raises:
  assumes "0 < max_scrolls" and "page 0 = Inl e"
  shows "ensure_min_tweets_loaded sha sleep page min_count max_scrolls pause = Inl e"
  using assms
  by (simp add: ensure_min_tweets_loaded_def collect_def collect_loop.simps [of _ _ _ _ _ _ _ 0])

lemma collect_pause_raises:
  assumes "0 < max_scrolls" and "page 0 = Inr elems" and "sleep pause = Inl e"
    and "int (card (add_fingerprints sha elems {})) < min_count"
  shows "ensure_min_tweets_loaded sha sleep page min_count max_scrolls pause = Inl e"
  using assms
  by (simp add: ensure_min_tweets_loaded_def collect_def collect_loop.simps [of _ _ _ _ _ _ _ 0]
        Let_def)

lemma loop_from_unfold:
  assumes "sleep pause = Inr ()"
  shows "loop_from sha sleep src min_count max_scrolls pause s =
     (if int s < max_scrolls
      then if min_count \<le> count_after sha src (Suc s)
           then Inr \<lparr>count = count_after sha src (Suc s), rounds = Suc s, reason = TargetReached\<rparr>
           else if 6 \<le> stall_after sha src (Suc s)
           then Inr \<lparr>count = count_after sha src (Suc s), rounds = Suc s, reason = Stalled\<rparr>
           else loop_from sha sleep src min_count max_scrolls pause (Suc s)
      else Inr \<lparr>count = count_after sha src s, rounds = s, reason = Exhausted\<rparr>)"
  unfolding loop_from_def
  by (subst collect_loop.simps) (simp add: Let_def count_after_def assms)

lemma loop_from_spec:
  assumes "sleep pause = Inr ()"
  shows "\<exists>res. loop_from sha sleep src min_count max_scrolls pause s = Inr res
               \<and> loop_spec sha src min_count max_scrolls s res"
proof (induction "nat (max_scrolls - int s)" arbitrary: s)
  case 0
  then have "\<not> int s < max_scrolls" by simp
  then show ?case
    by (subst loop_from_unfold [where sleep = sleep and pause = pause, OF assms]) (simp add: loop_spec_def)
next
  case (Suc n)
  then have lt: "int s < max_scrolls" by linarith
  from Suc have n: "n = nat (max_scrolls - int (Suc s))" by simp
  show ?case
  proof (cases "min_count \<le> count_after sha src (Suc s)")
    case True
    with lt show ?thesis
      by (subst loop_from_unfold [where sleep = sleep and pause = pause, OF assms]) (simp add: loop_spec_def)
  next
    case below: False
    show ?thesis
    proof (cases "6 \<le> stall_after sha src (Suc s)")
      case True
      with lt below show ?thesis
        by (subst loop_from_unfold [where sleep = sleep and pause = pause, OF assms]) (simp add: loop_spec_def)
    next
      case False
      have eq: "loop_from sha sleep src min_count max_scrolls pause s
                  = loop_from sha sleep src min_count max_scrolls pause (Suc s)"
        using lt below False by (subst loop_from_unfold [where sleep = sleep and pause = pause, OF assms]) simp
      from Suc.hyps(1) [OF n] obtain res where
        r: "loop_from sha sleep src min_count max_scrolls pause (Suc s) = Inr res"
        and ih: "loop_spec sha src min_count max_scrolls (Suc s) res" by blast
      have step: "\<And>j. s < j \<Longrightarrow> j = Suc s \<or> Suc s < j" by linarith
      have "loop_spec sha src min_count max_scrolls s res"
        using ih lt below False unfolding loop_spec_def
        by (auto dest: step simp del: stall_after.simps)
      with eq r show ?thesis by simp
    qed
  qed
qed

lemma add_fingerprints_grows:
  "seen \<subseteq> add_fingerprints sha elems seen
   \<and> (finite seen \<longrightarrow> finite (add_fingerprints sha elems seen))"
  unfolding add_fingerprints_def
  by (induction elems arbitrary: seen) (auto split: sum.splits, blast+)

lemma finite_seen_after: "finite (seen_after sha src n)"
  by (induction n) (simp_all add: add_fingerprints_grows)

lemma count_after_Suc: "count_after sha src n \<le> count_after sha src (Suc n)"
  unfolding count_after_def
  using add_fingerprints_grows [of "seen_after sha src n" sha "src n"]
  by (simp add: card_mono finite_seen_after)

lemma count_after_mono: "m \<le> n \<Longrightarrow> count_after sha src m \<le> count_after sha src n"
  by (induction n) (auto simp: le_Suc_eq intro: order_trans [OF _ count_after_Suc])

lemma loop_from_skip:
  assumes "sleep pause = Inr ()"
    and "s \<le> t" and "int t \<le> max_scrolls"
    and "\<forall>j. s < j \<and> j \<le> t \<longrightarrow>
           count_after sha src j < min_count \<and> stall_after sha src j < 6"
  shows "loop_from sha sleep src min_count max_scrolls pause s
           = loop_from sha sleep src min_count max_scrolls pause t"
  using assms(2-)
proof (induction t)
  case 0
  then show ?case by simp
next
  case (Suc t)
  show ?case
  proof (cases "s = Suc t")
    case True
    then show ?thesis by simp
  next
    case False
    with Suc.prems have le: "s \<le> t" by simp
    from Suc.prems have "int t \<le> max_scrolls" by simp
    with Suc.IH le Suc.prems(3)
    have a: "loop_from sha sleep src min_count max_scrolls pause s
               = loop_from sha sleep src min_count max_scrolls pause t"
      by simp
    from Suc.prems have lt: "int t < max_scrolls" by simp
    from le have "s < Suc t \<and> Suc t \<le> Suc t" by simp
    with Suc.prems(3)
    have b: "count_after sha src (Suc t) < min_count \<and> stall_after sha src (Suc t) < 6"
      by blast
    have "loop_from sha sleep src min_count max_scrolls pause t
            = loop_from sha sleep src min_count max_scrolls pause (Suc t)"
      using lt b by (subst loop_from_unfold [where sleep = sleep and pause = pause, OF assms(1)]) simp
    with a show ?thesis by simp
  qed
qed

lemma collect_is_loop_from:
  assumes "\<And>i. page i = Inr (src i)"
  shows "collect sha sleep page min_count max_scrolls pause
           = loop_from sha sleep src min_count max_scrolls pause 0"
proof -
  have "page = (\<lambda>i. Inr (src i))" using assms by (intro ext)
  then show ?thesis by (simp add: collect_def loop_from_def count_after_def)
qed

lemma loop_from_runs_round:
  assumes "sleep pause = Inr ()" and "int s < max_scrolls"
    and "loop_from sha sleep src min_count max_scrolls pause s = Inr res"
  shows "s < rounds res"
proof -
  note unf = loop_from_unfold [where sleep = sleep and pause = pause, OF assms(1),
                               of sha src min_count max_scrolls s]
  show ?thesis
  proof (cases "min_count \<le> count_after sha src (Suc s) \<or> 6 \<le> stall_after sha src (Suc s)")
    case True
    with assms(2,3) unf show ?thesis by (auto split: if_splits)
  next
    case False
    with assms(2,3) unf
    have "loop_from sha sleep src min_count max_scrolls pause (Suc s) = Inr res" by simp
    moreover from loop_from_spec [where sleep = sleep and pause = pause, OF assms(1),
                                  of sha src min_count max_scrolls "Suc s"]
    obtain res' where "loop_from sha sleep src min_count max_scrolls pause (Suc s) = Inr res'"
      and "loop_spec sha src min_count max_scrolls (Suc s) res'" by blast
    ultimately have "Suc s \<le> rounds res" by (simp add: loop_spec_def)
    then show ?thesis by simp
  qed
qed

text \<open>
  C4, as amended. For every source of elements whose enumeration does not fail and every
  pause that \<open>time.sleep\<close> accepts, the collector returns, it never begins more than
  \<open>max_scrolls\<close> rounds, and it returns the number of unique fingerprints seen in the rounds
  it has run. A round it runs in which the cumulative unique count reaches \<open>min_count\<close> is
  its last, no earlier round reached the target, and that count is returned. The first
  round in which the source reaches the target is run, and ends the collector in this
  way, when it is within the budget of \<open>max_scrolls\<close> rounds and the stall counter has
  stayed below 6 in every round before it.
\<close>

theorem collector_stops_at_first_target_round:
  fixes sha :: "string \<Rightarrow> string" and sleep :: "'p \<Rightarrow> py_error + unit"
    and page :: "nat \<Rightarrow> py_error + web_element list" and src :: "nat \<Rightarrow> web_element list"
    and min_count max_scrolls :: int and pause :: 'p
  assumes readable: "\<And>i. page i = Inr (src i)" and accepted: "sleep pause = Inr ()"
  shows "\<exists>res. collect sha sleep page min_count max_scrolls pause = Inr res
       \<and> ensure_min_tweets_loaded sha sleep page min_count max_scrolls pause = Inr (count res)
       \<and> int (rounds res) \<le> max 0 max_scrolls
       \<and> count res = count_after sha src (rounds res)
       \<and> (\<forall>r. r < rounds res \<and> min_count \<le> unique_count sha src r \<longrightarrow>
              rounds res = Suc r \<and> reason res = TargetReached
              \<and> count res = unique_count sha src r
              \<and> (\<forall>j<r. unique_count sha src j < min_count))
       \<and> (\<forall>r. int r < max_scrolls \<and> min_count \<le> unique_count sha src r
                \<and> (\<forall>j<r. unique_count sha src j < min_count
                           \<and> stall_after sha src (Suc j) < 6) \<longrightarrow>
              rounds res = Suc r \<and> reason res = TargetReached
              \<and> count res = unique_count sha src r)"
proof -
  note start = collect_is_loop_from [of page src sha sleep min_count max_scrolls pause, OF readable]
  from loop_from_spec [where sleep = sleep and pause = pause, OF accepted,
                       of sha src min_count max_scrolls 0]
  obtain res where res: "loop_from sha sleep src min_count max_scrolls pause 0 = Inr res"
    and spec: "loop_spec sha src min_count max_scrolls 0 res" by blast
  have col: "collect sha sleep page min_count max_scrolls pause = Inr res"
    using start res by simp
  have cnt: "ensure_min_tweets_loaded sha sleep page min_count max_scrolls pause = Inr (count res)"
    by (simp add: ensure_min_tweets_loaded_def col)
  have a: "int (rounds res) \<le> max 0 max_scrolls"
    using spec by (simp add: loop_spec_def)
  have b: "count res = count_after sha src (rounds res)"
    using spec by (simp add: loop_spec_def)
  have before: "\<And>j. 0 < j \<Longrightarrow> j < rounds res \<Longrightarrow> count_after sha src j < min_count"
    using spec by (simp add: loop_spec_def)
  have c: "rounds res = Suc r \<and> reason res = TargetReached
           \<and> count res = unique_count sha src r
           \<and> (\<forall>j<r. unique_count sha src j < min_count)"
    if r: "r < rounds res" and hit: "min_count \<le> unique_count sha src r" for r
  proof -
    have last: "rounds res = Suc r"
    proof (rule ccontr)
      assume "rounds res \<noteq> Suc r"
      with r have "Suc r < rounds res" by simp
      from before [OF _ this] hit show False by (simp add: unique_count_def)
    qed
    have "reason res = TargetReached"
      using spec hit last by (cases "reason res") (auto simp: loop_spec_def unique_count_def)
    moreover have "\<forall>j<r. unique_count sha src j < min_count"
      using before last by (simp add: unique_count_def)
    ultimately show ?thesis using last b by (simp add: unique_count_def)
  qed
  have d: "rounds res = Suc r \<and> reason res = TargetReached
           \<and> count res = unique_count sha src r"
    if lt: "int r < max_scrolls" and hit: "min_count \<le> unique_count sha src r"
      and pre: "\<forall>j<r. unique_count sha src j < min_count \<and> stall_after sha src (Suc j) < 6"
    for r
  proof -
    have "\<forall>j. 0 < j \<and> j \<le> r \<longrightarrow>
            count_after sha src j < min_count \<and> stall_after sha src j < 6"
    proof (intro allI impI)
      fix j assume "0 < j \<and> j \<le> r"
      then obtain i where "j = Suc i" "i < r" by (cases j) auto
      with pre show "count_after sha src j < min_count \<and> stall_after sha src j < 6"
        by (simp add: unique_count_def del: stall_after.simps)
    qed
    with lt have "loop_from sha sleep src min_count max_scrolls pause 0
                    = loop_from sha sleep src min_count max_scrolls pause r"
      by (intro loop_from_skip [where sleep = sleep and pause = pause, OF accepted]) simp_all
    also have "\<dots> = Inr \<lparr>count = count_after sha src (Suc r), rounds = Suc r,
                          reason = TargetReached\<rparr>"
      using lt hit
      by (subst loop_from_unfold [where sleep = sleep and pause = pause, OF accepted])
         (simp add: unique_count_def)
    finally show ?thesis using res by (simp add: unique_count_def)
  qed
  show ?thesis
    using col cnt a b c d by blast
qed

text \<open>
  C4 as amended, at a source that shows one new item in every round, with a target of 3
  and a budget of 10 rounds: the collector stops in its third round and returns 3.
\<close>

theorem collector_stops_at_first_target_round_witness:
  "int 2 < (10::int)
   \<and> 3 \<le> unique_count (\<lambda>s. s) (\<lambda>i. [numbered i]) 2
   \<and> unique_count (\<lambda>s. s) (\<lambda>i. [numbered i]) 0 < 3
   \<and> unique_count (\<lambda>s. s) (\<lambda>i. [numbered i]) 1 < 3
   \<and> collect (\<lambda>s. s) (\<lambda>p. Inr ()) (\<lambda>i. Inr [numbered i]) 3 10 ()
       = Inr \<lparr>count = 3, rounds = 3, reason = TargetReached\<rparr>
   \<and> ensure_min_tweets_loaded (\<lambda>s. s) (\<lambda>p. Inr ()) (\<lambda>i. Inr [numbered i]) 3 10 () = Inr 3"
proof -
  let ?sha = "\<lambda>s::string. s" and ?src = "\<lambda>i. [numbered i]"
  let ?sleep = "\<lambda>p::unit. Inr () :: py_error + unit"
  let ?page = "\<lambda>i. Inr [numbered i] :: py_error + web_element list"
  have rd: "\<And>i. ?page i = Inr (?src i)" by simp
  have acc: "?sleep () = Inr ()" by simp
  have h1: "int 2 < (10::int)" by simp
  have h2: "3 \<le> unique_count ?sha ?src 2" by code_simp
  have a0: "unique_count ?sha ?src 0 < 3 \<and> stall_after ?sha ?src (Suc 0) < 6"
    by code_simp
  have a1: "unique_count ?sha ?src 1 < 3 \<and> stall_after ?sha ?src (Suc 1) < 6"
    by code_simp
  have h3: "\<forall>j<2. unique_count ?sha ?src j < 3 \<and> stall_after ?sha ?src (Suc j) < 6"
  proof (intro allI impI)
    fix j :: nat assume "j < 2"
    then have "j = 0 \<or> j = 1" by auto
    with a0 a1 show "unique_count ?sha ?src j < 3 \<and> stall_after ?sha ?src (Suc j) < 6"
      by blast
  qed
  have u: "unique_count ?sha ?src 2 = 3" by code_simp
  from collector_stops_at_first_target_round
         [where page = ?page and src = ?src and sleep = ?sleep and pause = "()"
            and sha = ?sha and min_count = 3 and max_scrolls = 10, OF rd acc]
  obtain res where T: "collect ?sha ?sleep ?page 3 10 () = Inr res
       \<and> ensure_min_tweets_loaded ?sha ?sleep ?page 3 10 () = Inr (count res)
       \<and> int (rounds res) \<le> max 0 10
       \<and> count res = count_after ?sha ?src (rounds res)
       \<and> (\<forall>r. r < rounds res \<and> 3 \<le> unique_count ?sha ?src r \<longrightarrow>
              rounds res = Suc r \<and> reason res = TargetReached
              \<and> count res = unique_count ?sha ?src r
              \<and> (\<forall>j<r. unique_count ?sha ?src j < 3))
       \<and> (\<forall>r. int r < 10 \<and> 3 \<le> unique_count ?sha ?src r
                \<and> (\<forall>j<r. unique_count ?sha ?src j < 3
                           \<and> stall_after ?sha ?src (Suc j) < 6) \<longrightarrow>
              rounds res = Suc r \<and> reason res = TargetReached
              \<and> count res = unique_count ?sha ?src r)" ..
  note col = T [THEN conjunct1]
  note ens = T [THEN conjunct2, THEN conjunct1]
  note live = T [THEN conjunct2, THEN conjunct2, THEN conjunct2, THEN conjunct2, THEN conjunct2,
                 THEN spec, of 2]
  have rr: "rounds res = Suc 2 \<and> reason res = TargetReached
            \<and> count res = unique_count ?sha ?src 2"
    by (rule live [THEN mp]) (intro conjI h1 h2 h3)
  then have "res = \<lparr>count = 3, rounds = 3, reason = TargetReached\<rparr>"
    unfolding u by simp
  with col ens have "collect ?sha ?sleep ?page 3 10 ()
                       = Inr \<lparr>count = 3, rounds = 3, reason = TargetReached\<rparr>"
    and "ensure_min_tweets_loaded ?sha ?sleep ?page 3 10 () = Inr 3" by simp_all
  with h1 h2 a0 a1 show ?thesis by blast
qed

text \<open>
  C4 as stated fails at a source that shows nothing for six rounds and one item from
  then on, with a target of 1 and a budget of 300 rounds: the cumulative unique count
  first reaches the target in the round with index 6, but the stall counter reaches 6 in
  the round with index 5, where the collector stops and returns 0.
\<close>

theorem collector_target_counterexample:
  "unique_count (\<lambda>s. s) late_source 5 = 0
   \<and> unique_count (\<lambda>s. s) late_source 6 = 1
   \<and> collect (\<lambda>s. s) (\<lambda>p. Inr ()) (\<lambda>i. Inr (late_source i)) 1 300 ()
       = Inr \<lparr>count = 0, rounds = 6, reason = Stalled\<rparr>
   \<and> ensure_min_tweets_loaded (\<lambda>s. s) (\<lambda>p. Inr ()) (\<lambda>i. Inr (late_source i)) 1 300 ()
       = Inr 0"
  by code_simp

lemma same_page_seen: "seen_after (\<lambda>s. s) (\<lambda>i. [numbered 0]) (Suc n) = {''7''}"
proof -
  have fp: "fingerprint (\<lambda>s. s) (numbered 0) = Inr ''7''" by code_simp
  show ?thesis
    by (induction n) (simp_all add: add_fingerprints_def fp)
qed

text \<open>
  C5, as amended. For every source of elements whose enumeration does not fail and every
  pause that \<open>time.sleep\<close> accepts: when the source brings no new unique item after the
  round with index \<open>k\<close> and the count of that round is below the target, the collector
  returns, it runs no round with an index above \<open>k + 6\<close>, and it does not report the
  target as reached; when it stops by the stall rule the stall counter is at 6 or more,
  and it stops by the stall rule whenever it stops within the budget. It returns the
  plateaued count whenever it runs the round with index \<open>k\<close>, which it does when that
  round is within the budget and the stall counter has stayed below 6 in every round
  before it.
\<close>

theorem collector_stall_bound:
  fixes sha :: "string \<Rightarrow> string" and sleep :: "'p \<Rightarrow> py_error + unit"
    and page :: "nat \<Rightarrow> py_error + web_element list" and src :: "nat \<Rightarrow> web_element list"
    and min_count max_scrolls :: int and pause :: 'p
  assumes readable: "\<And>i. page i = Inr (src i)" and accepted: "sleep pause = Inr ()"
    and plateau: "\<forall>j>k. unique_count sha src j = unique_count sha src k"
    and below: "unique_count sha src k < min_count"
  shows "\<exists>res. collect sha sleep page min_count max_scrolls pause = Inr res
       \<and> ensure_min_tweets_loaded sha sleep page min_count max_scrolls pause = Inr (count res)
       \<and> (\<forall>r<rounds res. r \<le> k + 6)
       \<and> reason res \<noteq> TargetReached
       \<and> (reason res = Stalled \<longrightarrow> 6 \<le> stall_after sha src (rounds res))
       \<and> (int (rounds res) < max_scrolls \<longrightarrow> reason res = Stalled)
       \<and> (k < rounds res \<longrightarrow> count res = unique_count sha src k)
       \<and> (int k < max_scrolls \<and> (\<forall>j<k. stall_after sha src (Suc j) < 6) \<longrightarrow>
             k < rounds res \<and> count res = unique_count sha src k)"
proof -
  note start = collect_is_loop_from [of page src sha sleep min_count max_scrolls pause, OF readable]
  from loop_from_spec [where sleep = sleep and pause = pause, OF accepted,
                       of sha src min_count max_scrolls 0]
  obtain res where res: "loop_from sha sleep src min_count max_scrolls pause 0 = Inr res"
    and spec: "loop_spec sha src min_count max_scrolls 0 res" by blast
  have col: "collect sha sleep page min_count max_scrolls pause = Inr res"
    using start res by simp
  have cnt: "ensure_min_tweets_loaded sha sleep page min_count max_scrolls pause = Inr (count res)"
    by (simp add: ensure_min_tweets_loaded_def col)
  have flat: "count_after sha src (Suc k + i) = count_after sha src (Suc k)" for i
    using plateau by (cases i) (simp_all add: unique_count_def)
  have all_below: "count_after sha src j < min_count" for j
  proof (cases "j \<le> Suc k")
    case True
    from count_after_mono [OF this, of sha src] below show ?thesis
      by (simp add: unique_count_def)
  next
    case False
    then obtain i where "j = Suc k + i" by (metis le_add_diff_inverse nat_le_linear)
    with flat below show ?thesis by (simp add: unique_count_def)
  qed
  have stall: "i \<le> stall_after sha src (Suc k + i)" for i
  proof (induction i)
    case 0
    show ?case by simp
  next
    case (Suc i)
    have "count_after sha src (Suc (Suc k + i)) \<le> count_after sha src (Suc k + i)"
      using flat [of "Suc i"] flat [of i] by simp
    with Suc show ?case by simp
  qed
  have bound: "rounds res \<le> k + 7"
  proof (rule ccontr)
    assume "\<not> rounds res \<le> k + 7"
    then have "0 < k + 7 \<and> k + 7 < rounds res" by simp
    with spec have "stall_after sha src (k + 7) < 6" by (simp add: loop_spec_def)
    moreover have e: "Suc k + 6 = k + 7" by simp
    have "6 \<le> stall_after sha src (k + 7)" using stall [of 6] unfolding e .
    ultimately show False by linarith
  qed
  have no_target: "reason res \<noteq> TargetReached"
    using spec all_below [of "rounds res"] by (auto simp: loop_spec_def)
  have stalled: "reason res = Stalled \<longrightarrow> 6 \<le> stall_after sha src (rounds res)"
    using spec by (simp add: loop_spec_def)
  have early: "int (rounds res) < max_scrolls \<longrightarrow> reason res = Stalled"
    using spec no_target by (cases "reason res") (auto simp: loop_spec_def)
  have plateaued: "count res = unique_count sha src k" if "k < rounds res"
  proof -
    from that obtain i where "rounds res = Suc k + i"
      by (metis Suc_leI le_add_diff_inverse)
    with spec flat [of i] show ?thesis by (simp add: loop_spec_def unique_count_def)
  qed
  have reached: "k < rounds res \<and> count res = unique_count sha src k"
    if lt: "int k < max_scrolls" and pre: "\<forall>j<k. stall_after sha src (Suc j) < 6"
  proof -
    have "\<forall>j. 0 < j \<and> j \<le> k \<longrightarrow>
            count_after sha src j < min_count \<and> stall_after sha src j < 6"
    proof (intro allI impI)
      fix j assume "0 < j \<and> j \<le> k"
      then obtain i where "j = Suc i" "i < k" by (cases j) auto
      with pre all_below [of j]
      show "count_after sha src j < min_count \<and> stall_after sha src j < 6"
        by (simp del: stall_after.simps)
    qed
    with lt have "loop_from sha sleep src min_count max_scrolls pause 0
                    = loop_from sha sleep src min_count max_scrolls pause k"
      by (intro loop_from_skip [where sleep = sleep and pause = pause, OF accepted]) simp_all
    with res have "loop_from sha sleep src min_count max_scrolls pause k = Inr res" by simp
    from loop_from_runs_round [where sleep = sleep and pause = pause, OF accepted lt this]
    have "k < rounds res" .
    with plateaued show ?thesis by simp
  qed
  have bound': "\<forall>r<rounds res. r \<le> k + 6" using bound by auto
  show ?thesis
    using col cnt bound' no_target stalled early plateaued reached by blast
qed

text \<open>
  C5 as amended, at a source that shows the same single item in every round (so
  \<open>k = 0\<close>), with a target of 5 and a budget of 300 rounds: the collector stops by the
  stall rule in its seventh round, the round with index 6, and returns 1.
\<close>

theorem collector_stall_bound_witness:
  "(\<forall>j. unique_count (\<lambda>s. s) (\<lambda>i. [numbered 0]) j = 1)
   \<and> collect (\<lambda>s. s) (\<lambda>p. Inr ()) (\<lambda>i. Inr [numbered 0]) 5 300 ()
       = Inr \<lparr>count = 1, rounds = 7, reason = Stalled\<rparr>
   \<and> ensure_min_tweets_loaded (\<lambda>s. s) (\<lambda>p. Inr ()) (\<lambda>i. Inr [numbered 0]) 5 300 () = Inr 1"
proof -
  let ?sha = "\<lambda>s::string. s" and ?src = "\<lambda>i::nat. [numbered 0]"
  let ?sleep = "\<lambda>p::unit. Inr () :: py_error + unit"
  let ?page = "\<lambda>i::nat. Inr [numbered 0] :: py_error + web_element list"
  have rd: "\<And>i. ?page i = Inr (?src i)" by simp
  have acc: "?sleep () = Inr ()" by simp
  have u: "unique_count ?sha ?src j = 1" for j
    unfolding unique_count_def count_after_def same_page_seen by simp
  have plateau: "\<forall>j>0. unique_count ?sha ?src j = unique_count ?sha ?src 0"
    unfolding u by simp
  have below: "unique_count ?sha ?src 0 < 5" unfolding u by simp
  have ev: "collect ?sha ?sleep ?page 5 300 () = Inr \<lparr>count = 1, rounds = 7, reason = Stalled\<rparr>"
    by code_simp
  from collector_stall_bound
         [where page = ?page and src = ?src and sleep = ?sleep and pause = "()"
            and sha = ?sha and min_count = 5 and max_scrolls = 300 and k = 0,
          OF rd acc plateau below]
  obtain res where T: "collect ?sha ?sleep ?page 5 300 () = Inr res
       \<and> ensure_min_tweets_loaded ?sha ?sleep ?page 5 300 () = Inr (count res)
       \<and> (\<forall>r<rounds res. r \<le> 0 + 6)
       \<and> reason res \<noteq> TargetReached
       \<and> (reason res = Stalled \<longrightarrow> 6 \<le> stall_after ?sha ?src (rounds res))
       \<and> (int (rounds res) < 300 \<longrightarrow> reason res = Stalled)
       \<and> (0 < rounds res \<longrightarrow> count res = unique_count ?sha ?src 0)
       \<and> (int 0 < 300 \<and> (\<forall>j<0. stall_after ?sha ?src (Suc j) < 6) \<longrightarrow>
             0 < rounds res \<and> count res = unique_count ?sha ?src 0)" ..
  note col = T [THEN conjunct1]
  note ens = T [THEN conjunct2, THEN conjunct1]
  note reached = T [THEN conjunct2, THEN conjunct2, THEN conjunct2, THEN conjunct2,
                    THEN conjunct2, THEN conjunct2, THEN conjunct2]
  have "0 < rounds res \<and> count res = unique_count ?sha ?src 0"
    by (rule reached [THEN mp]) simp
  then have c: "count res = 1" unfolding u by simp
  from ens c have e: "ensure_min_tweets_loaded ?sha ?sleep ?page 5 300 () = Inr 1" by simp
  from u ev e show ?thesis by blast
qed

lemma two_plateau_seen:
  "8 \<le> n \<Longrightarrow> seen_after (\<lambda>s. s) two_plateau_source (Suc n) = {''7'', ''77''}"
proof (induction n rule: nat_induct_at_least)
  case base
  show ?case by code_simp
next
  case (Suc n)
  have fp: "fingerprint (\<lambda>s. s) (numbered 0) = Inr ''7''"
    "fingerprint (\<lambda>s. s) (numbered (Suc 0)) = Inr ''77''" by code_simp+
  from Suc.hyps have "two_plateau_source (Suc n) = [numbered 0, numbered (Suc 0)]"
    by (simp add: two_plateau_source_def)
  with Suc.IH show ?case
    by (simp add: add_fingerprints_def fp insert_commute)
qed

text \<open>
  C5 as stated fails at a source that shows one item in its first eight rounds and two
  from then on, with a target of 5 and a budget of 300 rounds: it brings no new unique
  item after the round with index 8, where its count is 2, but the stall counter reaches
  6 in the round with index 6, where the collector stops and returns 1, not the plateaued
  count 2.
\<close>

theorem collector_plateau_counterexample:
  "(\<forall>j. unique_count (\<lambda>s. s) two_plateau_source (8 + j) = 2)
   \<and> unique_count (\<lambda>s. s) two_plateau_source 8 < 5
   \<and> collect (\<lambda>s. s) (\<lambda>p. Inr ()) (\<lambda>i. Inr (two_plateau_source i)) 5 300 ()
       = Inr \<lparr>count = 1, rounds = 7, reason = Stalled\<rparr>
   \<and> ensure_min_tweets_loaded (\<lambda>s. s) (\<lambda>p. Inr ()) (\<lambda>i. Inr (two_plateau_source i)) 5 300 ()
       = Inr 1"
proof -
  have u: "unique_count (\<lambda>s. s) two_plateau_source (8 + j) = 2" for j
    unfolding unique_count_def count_after_def by (subst two_plateau_seen) simp_all
  have b: "unique_count (\<lambda>s. s) two_plateau_source 8 < 5" using u [of 0] by simp
  have ev: "collect (\<lambda>s. s) (\<lambda>p. Inr ()) (\<lambda>i. Inr (two_plateau_source i)) 5 300 ()
       = Inr \<lparr>count = 1, rounds = 7, reason = Stalled\<rparr>" by code_simp
  have ev2: "ensure_min_tweets_loaded (\<lambda>s. s) (\<lambda>p. Inr ()) (\<lambda>i. Inr (two_plateau_source i)) 5 300 ()
       = Inr 1" by code_simp
  from u b ev ev2 show ?thesis by blast
qed

section \<open>Properties of the fingerprint resolver\<close>

lemma takeWhile_nonempty: "takeWhile P xs \<noteq> [] \<longleftrightarrow> xs \<noteq> [] \<and> P (hd xs)"
  by (cases xs) auto

lemma digits_follow_iff:
  "takeWhile is_digit (drop n s) \<noteq> [] \<longleftrightarrow> n < length s \<and> is_digit (s ! n)"
  by (auto simp: takeWhile_nonempty hd_drop_conv_nth)

lemma status_marker_facts:
  "length status_marker = 8" "\<forall>c \<in> set status_marker. \<not> is_digit c"
  by (auto simp: status_marker_def is_digit_def)

lemma match_status_here_None_iff:
  "match_status_here s = None \<longleftrightarrow>
     \<not> (take 8 s = status_marker \<and> 8 < length s \<and> is_digit (s ! 8))"
  by (simp add: match_status_here_def starts_with_def digits_follow_iff status_marker_facts)

lemma no_match_extend:
  assumes "\<not> (take n P = S \<and> n < length P \<and> is_digit (P ! n))"
    and "P \<noteq> []" and "length S = n" and "\<forall>c \<in> set S. \<not> is_digit c"
  shows "\<not> (take n (P @ S @ rest) = S \<and> n < length (P @ S @ rest)
            \<and> is_digit ((P @ S @ rest) ! n))"
proof (cases "n < length P")
  case True
  with assms(1) show ?thesis by (simp add: nth_append)
next
  case False
  with assms(2) have j: "n - length P < n" by (cases P) auto
  from False have "(P @ S @ rest) ! n = (S @ rest) ! (n - length P)"
    by (simp add: nth_append)
  also have "\<dots> = S ! (n - length P)"
    using j assms(3) by (simp add: nth_append)
  finally have "(P @ S @ rest) ! n \<in> set S"
    using j assms(3) by simp
  with assms(4) show ?thesis by blast
qed

lemma match_status_here_extend:
  assumes "match_status_here P = None" and "P \<noteq> []"
  shows "match_status_here (P @ status_marker @ rest) = None"
  using no_match_extend [of 8 P status_marker rest] assms status_marker_facts
  unfolding match_status_here_None_iff by blast

lemma match_status_here_marker:
  assumes "ds \<noteq> []" and "\<forall>c \<in> set ds. is_digit c" and "post = [] \<or> \<not> is_digit (hd post)"
  shows "match_status_here (status_marker @ ds @ post) = Some ds"
proof -
  have tw: "takeWhile is_digit (ds @ post) = ds"
    using assms(2,3) by (cases post) (auto simp: takeWhile_append2)
  show ?thesis
    using assms(1) by (simp add: match_status_here_def starts_with_def tw)
qed

lemma status_id_search_found:
  assumes "status_id_search pre = None"
    and "ds \<noteq> []" and "\<forall>c \<in> set ds. is_digit c"
    and "post = [] \<or> \<not> is_digit (hd post)"
  shows "status_id_search (pre @ status_marker @ ds @ post) = Some ds"
  using assms(1)
proof (induction pre)
  case Nil
  have "status_marker @ ds @ post \<noteq> []" using assms(2) by simp
  then obtain c cs where e: "status_marker @ ds @ post = c # cs" by (cases "status_marker @ ds @ post") auto
  have "match_status_here (c # cs) = Some ds"
    using match_status_here_marker [OF assms(2,3,4)] by (simp only: e)
  then have "status_id_search (c # cs) = Some ds" by simp
  then show ?case by (simp only: e append_Nil)
next
  case (Cons c pre)
  from Cons.prems have here: "match_status_here (c # pre) = None"
    and rest: "status_id_search pre = None"
    by (auto split: option.splits)
  have "match_status_here ((c # pre) @ status_marker @ ds @ post) = None"
    by (rule match_status_here_extend [OF here]) simp
  then have "status_id_search ((c # pre) @ status_marker @ ds @ post)
               = status_id_search (pre @ status_marker @ ds @ post)"
    by simp
  with Cons.IH [OF rest] show ?case by simp
qed

lemma match_status_here_sound:
  assumes "match_status_here s = Some ds"
  shows "ds \<noteq> [] \<and> (\<forall>c \<in> set ds. is_digit c)
     \<and> (\<exists>post. s = status_marker @ ds @ post \<and> (post = [] \<or> \<not> is_digit (hd post)))"
proof -
  let ?n = "length status_marker"
  from assms have st: "take ?n s = status_marker"
    and ne: "takeWhile is_digit (drop ?n s) \<noteq> []"
    and ds: "ds = takeWhile is_digit (drop ?n s)"
    by (auto simp: match_status_here_def starts_with_def split: if_splits)
  let ?post = "dropWhile is_digit (drop ?n s)"
  have "s = take ?n s @ drop ?n s" by simp
  also have "drop ?n s = ds @ ?post" unfolding ds by simp
  finally have A: "s = status_marker @ ds @ ?post" unfolding st .
  have B: "?post = [] \<or> \<not> is_digit (hd ?post)" by (metis hd_dropWhile)
  show ?thesis
  proof (intro conjI)
    show "ds \<noteq> []" using ne ds by simp
    show "\<forall>c \<in> set ds. is_digit c" unfolding ds by (auto dest: set_takeWhileD)
    show "\<exists>post. s = status_marker @ ds @ post \<and> (post = [] \<or> \<not> is_digit (hd post))"
      using A B by blast
  qed
qed

lemma status_id_search_sound:
  "status_id_search s = Some ds \<Longrightarrow>
     ds \<noteq> [] \<and> (\<forall>c \<in> set ds. is_digit c)
     \<and> (\<exists>pre post. s = pre @ status_marker @ ds @ post \<and> (post = [] \<or> \<not> is_digit (hd post)))"
proof (induction s)
  case Nil
  then show ?case by simp
next
  case (Cons c cs)
  show ?case
  proof (cases "match_status_here (c # cs)")
    case (Some i)
    with Cons.prems have "match_status_here (c # cs) = Some ds" by simp
    from match_status_here_sound [OF this] show ?thesis
      by (metis append_Nil)
  next
    case None
    with Cons.prems have "status_id_search cs = Some ds" by simp
    from Cons.IH [OF this] obtain pre post where
      a: "ds \<noteq> []" "\<forall>c \<in> set ds. is_digit c" "cs = pre @ status_marker @ ds @ post"
      "post = [] \<or> \<not> is_digit (hd post)" by blast
    then have "c # cs = (c # pre) @ status_marker @ ds @ post" by simp
    with a show ?thesis by blast
  qed
qed

lemma status_id_search_nonempty: "status_id_search s = Some i \<Longrightarrow> i \<noteq> []"
  by (simp add: status_id_search_sound)

lemma link_id_nonempty: "link_id el = Some i \<Longrightarrow> i \<noteq> []"
  by (auto simp: link_id_def split: sum.splits dest: status_id_search_nonempty)

text \<open>
  C6, as amended. For every rendered element whose markup can be read: a fingerprint is
  produced. If the markup holds a permalink segment \<open>/status/\<close> followed by digits, the
  fingerprint is exactly the run of digits of the leftmost such segment, whatever
  stands before and after it. If the markup holds none, the fingerprint is the id found
  in the href of a descendant permalink link when the lookup through the driver yields
  one, and otherwise \<open>sha1-\<close> followed by the hash of the whole markup. The fingerprint
  is determined by the markup and the answer of the link lookup.
\<close>

theorem fingerprint_resolution:
  assumes "outer_html el = Inr oh"
  shows "(\<exists>fp. fingerprint sha el = Inr fp)
       \<and> (\<forall>pre ds post.
             or_empty oh = pre @ status_marker @ ds @ post \<and> status_id_search pre = None
             \<and> ds \<noteq> [] \<and> (\<forall>c \<in> set ds. is_digit c) \<and> (post = [] \<or> \<not> is_digit (hd post))
             \<longrightarrow> fingerprint sha el = Inr ds)
       \<and> (\<forall>i. status_id_search (or_empty oh) = None \<and> link_id el = Some i
             \<longrightarrow> fingerprint sha el = Inr i)
       \<and> (status_id_search (or_empty oh) = None \<and> link_id el = None
             \<longrightarrow> fingerprint sha el = Inr (''sha1-'' @ sha (or_empty oh)))
       \<and> (\<forall>el'. outer_html el' = outer_html el \<and> status_link el' = status_link el
             \<longrightarrow> fingerprint sha el' = fingerprint sha el)"
proof (intro conjI allI impI)
  show "\<exists>fp. fingerprint sha el = Inr fp"
    using assms by (simp add: fingerprint_def Let_def)
next
  fix pre ds post
  assume a: "or_empty oh = pre @ status_marker @ ds @ post \<and> status_id_search pre = None
             \<and> ds \<noteq> [] \<and> (\<forall>c \<in> set ds. is_digit c) \<and> (post = [] \<or> \<not> is_digit (hd post))"
  then have "status_id_search (or_empty oh) = Some ds"
    using status_id_search_found [of pre ds post] by simp
  with a show "fingerprint sha el = Inr ds"
    using assms by (simp add: fingerprint_def Let_def)
next
  fix i
  assume "status_id_search (or_empty oh) = None \<and> link_id el = Some i"
  then show "fingerprint sha el = Inr i"
    using assms link_id_nonempty [of el i] by (simp add: fingerprint_def Let_def)
next
  assume "status_id_search (or_empty oh) = None \<and> link_id el = None"
  then show "fingerprint sha el = Inr (''sha1-'' @ sha (or_empty oh))"
    using assms by (simp add: fingerprint_def Let_def)
next
  fix el' :: web_element
  assume "outer_html el' = outer_html el \<and> status_link el' = status_link el"
  then have "outer_html el' = outer_html el" and "link_id el' = link_id el"
    by (simp_all add: link_id_def)
  then show "fingerprint sha el' = fingerprint sha el"
    by (simp add: fingerprint_def cong: sum.case_cong option.case_cong)
qed

text \<open>C6 at an element whose markup holds the permalink id \<open>7\<close> amid other markup.\<close>

theorem fingerprint_resolution_witness:
  "outer_html (numbered 0) = Inr (Some (''<a href=/u'' @ status_marker @ ''7'' @ ''>''))
   \<and> status_id_search ''<a href=/u'' = None
   \<and> fingerprint (\<lambda>s. s) (numbered 0) = Inr ''7''
   \<and> outer_html plain_element = Inr (Some ''<article>hello</article>'')
   \<and> status_id_search ''<article>hello</article>'' = None
   \<and> link_id plain_element = None
   \<and> fingerprint (\<lambda>s. ''0a'') plain_element = Inr ''sha1-0a''"
proof -
  have g: "outer_html plain_element = Inr (Some ''<article>hello</article>'')"
    by (simp add: plain_element_def)
  have g1: "status_id_search ''<article>hello</article>'' = None" by code_simp
  have g2: "link_id plain_element = None" by code_simp
  note U = fingerprint_resolution [OF g, of "\<lambda>s. ''0a''"]
  note hashed = U [THEN conjunct2, THEN conjunct2, THEN conjunct2, THEN conjunct1]
  have k: "fingerprint (\<lambda>s. ''0a'') plain_element = Inr ''sha1-0a''"
    using hashed g1 g2 by (simp add: or_empty_def)
  have h: "outer_html (numbered 0) = Inr (Some (''<a href=/u'' @ status_marker @ ''7'' @ ''>''))"
    by (simp add: numbered_def status_marker_def)
  have n: "status_id_search ''<a href=/u'' = None" by code_simp
  have d: "\<forall>c \<in> set ''7''. is_digit c" by (simp add: is_digit_def)
  have p: "''>'' = [] \<or> \<not> is_digit (hd ''>'')" by (simp add: is_digit_def)
  note T = fingerprint_resolution [OF h, of "\<lambda>s. s"]
  note found = T [THEN conjunct2, THEN conjunct1, THEN spec, THEN spec, THEN spec,
                  of "''<a href=/u''" "''7''" "''>''"]
  have "fingerprint (\<lambda>s. s) (numbered 0) = Inr ''7''"
    by (rule found [THEN mp]) (use n d p in \<open>simp add: or_empty_def\<close>)
  with h n g g1 g2 k show ?thesis by simp
qed

text \<open>
  C6 as stated fails at the element with the tab in its link: its markup holds no
  permalink segment followed by digits, yet the fingerprint is \<open>42\<close>, taken from the href
  of the link, and not a hash with the prefix \<open>sha1-\<close> (whatever the hash function).
\<close>

theorem fingerprint_link_counterexample:
  "outer_html tabbed_link_element = Inr (Some tabbed_markup)
   \<and> status_id_search tabbed_markup = None
   \<and> fingerprint (\<lambda>s. []) tabbed_link_element = Inr ''42''
   \<and> fingerprint (\<lambda>s. []) tabbed_link_element \<noteq> Inr (''sha1-'' @ (\<lambda>s. []) tabbed_markup)"
  by code_simp

section \<open>Properties of the container capture\<close>

lemma first_capture_first:
  assumes "look sel = Inr (Some h)" and "50 < length h"
    and "\<forall>s \<in> set pre. \<not> accepted (look s)"
  shows "first_capture look (pre @ sel # post) = Some h"
  using assms(3)
proof (induction pre)
  case Nil
  from assms(2) have "h \<noteq> []" by auto
  with assms(1,2) show ?case by simp
next
  case (Cons s pre)
  then have "\<not> accepted (look s)" by simp
  then have "first_capture look (s # pre @ sel # post) = first_capture look (pre @ sel # post)"
    by (auto simp: accepted_def split: sum.splits option.splits)
  with Cons show ?case by simp
qed

lemma join_nonempty: "x \<noteq> [] \<Longrightarrow> join sep (x # xs) \<noteq> []"
  by (cases xs) simp_all

lemma wrapper_nonempty: "wrapper tweets \<noteq> []"
  unfolding wrapper_def by (simp add: join_nonempty)

lemma wrapper_parts_readable:
  "\<forall>t \<in> set tweets. \<exists>oh. outer_html t = Inr oh \<Longrightarrow>
     wrapper_parts tweets = map (\<lambda>t. or_empty (projr (outer_html t))) tweets"
  unfolding wrapper_parts_def by (induction tweets) auto

text \<open>
  C9. When \<open>sel\<close> is the first of the container selectors whose captured markup exists
  and is longer than 50 characters, its markup \<open>h\<close> is the capture; the result is the
  synthesized wrapper exactly when at least one item element is enumerated and the
  number of item tags in \<open>h\<close> is below the larger of 10 and the whole quotient of the
  number of elements by 4, and \<open>h\<close> itself otherwise. The wrapper joins, between its
  opening and closing tags, the markup of every enumerated element.
\<close>

theorem capture_policy:
  assumes "selectors = pre @ sel # post"
    and "container_html env sel = Inr (Some h)" and "50 < length h"
    and "\<forall>s \<in> set pre. \<not> accepted (container_html env s)"
    and "tweet_elements env = Inr tweets"
  shows "grab_entire_div_html env =
           Inr (Some (if 0 < length tweets
                         \<and> int (count_sub ''<article'' h) < max 10 (int (length tweets) div 4)
                      then wrapper tweets else h))
       \<and> ((\<forall>t \<in> set tweets. \<exists>oh. outer_html t = Inr oh) \<longrightarrow>
            wrapper tweets =
              join [CHR 0x0A]
                ([''<div id='' @ [squote] @ ''x-scraper-wrapper'' @ [squote] @ ''>'']
                 @ map (\<lambda>t. or_empty (projr (outer_html t))) tweets @ [''</div>'']))"
proof -
  have fc: "first_capture (container_html env) selectors = Some h"
    unfolding assms(1) by (rule first_capture_first [OF assms(2,3,4)])
  from assms(3) have ne: "h \<noteq> []" by auto
  have "grab_entire_div_html env =
           Inr (Some (if 0 < length tweets
                         \<and> int (count_sub ''<article'' h) < max 10 (int (length tweets) div 4)
                      then wrapper tweets else h))"
    using ne wrapper_nonempty [of tweets]
    by (simp add: grab_entire_div_html_def fc assms(5) or_empty_def Let_def)
  moreover have "(\<forall>t \<in> set tweets. \<exists>oh. outer_html t = Inr oh) \<longrightarrow>
            wrapper tweets =
              join [CHR 0x0A]
                ([''<div id='' @ [squote] @ ''x-scraper-wrapper'' @ [squote] @ ''>'']
                 @ map (\<lambda>t. or_empty (projr (outer_html t))) tweets @ [''</div>''])"
    by (simp add: wrapper_def wrapper_parts_readable)
  ultimately show ?thesis by blast
qed

text \<open>
  C9 at the example: the third selector is the first that is accepted, its markup has one
  item tag, two elements are enumerated, and the wrapper is returned.
\<close>

theorem capture_policy_witness:
  "selectors = take 2 selectors @ selectors ! 2 # drop 3 selectors
   \<and> container_html example_capture (selectors ! 2) = Inr (Some example_container)
   \<and> 50 < length example_container
   \<and> tweet_elements example_capture = Inr [numbered 0, numbered 1]
   \<and> count_sub ''<article'' example_container = 1
   \<and> grab_entire_div_html example_capture = Inr (Some (wrapper [numbered 0, numbered 1]))"
proof -
  have h1: "selectors = take 2 selectors @ selectors ! 2 # drop 3 selectors"
    by (simp add: selectors_def)
  have h2: "container_html example_capture (selectors ! 2) = Inr (Some example_container)"
    by (simp add: example_capture_def)
  have h3: "50 < length example_container" by (simp add: example_container_def)
  have h4: "\<forall>s \<in> set (take 2 selectors). \<not> accepted (container_html example_capture s)"
    by code_simp
  have h5: "tweet_elements example_capture = Inr [numbered 0, numbered 1]"
    by (simp add: example_capture_def)
  have c: "count_sub ''<article'' example_container = 1" by code_simp
  from capture_policy [OF h1 h2 h3 h4 h5, THEN conjunct1]
  have "grab_entire_div_html example_capture = Inr (Some (wrapper [numbered 0, numbered 1]))"
    by (simp add: c)
  with h1 h2 h3 h5 c show ?thesis by blast
qed

section \<open>Properties of the session orchestrator\<close>

lemma close_returns: "snd (close env st) = Inr ()"
  by (simp add: close_def Let_def)

lemma close_counts:
  "close_calls (fst (close env st)) = close_calls st + 1"
  "driver st \<Longrightarrow> quit_calls (fst (close env st)) = quit_calls st + 1"
  by (simp_all add: close_def Let_def)

text \<open>
  C3, as amended. In every execution of \<open>run\<close> in which the output directory is made and
  the driver starts, \<open>close\<close> is called exactly once before \<open>run\<close> exits and quits the
  driver, whether the steps after the start complete or one of them raises; the outcome
  of \<open>run\<close> is the one of those steps, whether or not the driver quits cleanly; and
  \<open>close\<close> never raises.
\<close>

theorem run_closes_after_startup:
  assumes "\<not> mkdir_fails env" and "driver_path_exists env"
    and "\<not> chrome_fails env" and "\<not> window_size_fails env"
  shows "close_calls (final_state (run env login_name login_password tags target)) = 1
       \<and> quit_calls (final_state (run env login_name login_password tags target)) = 1
       \<and> outcome (run env login_name login_password tags target)
           = fst (run_body env login_name login_password tags target)
       \<and> (\<forall>st. snd (close env st) = Inr ())"
proof -
  let ?st1 = "\<lparr>driver = True, close_calls = 0, quit_calls = 0\<rparr>"
  have sd: "start_driver env \<lparr>driver = False, close_calls = 0, quit_calls = 0\<rparr> = (?st1, Inr ())"
    using assms by (simp add: start_driver_def)
  obtain st2 where cl: "close env ?st1 = (st2, Inr ())"
    using close_returns [of env ?st1] by (cases "close env ?st1") auto
  have st2: "close_calls st2 = 1" "quit_calls st2 = 1"
    using close_counts [where env = env and st = ?st1] cl by simp_all
  have r: "run env login_name login_password tags target =
             \<lparr>outcome = fst (run_body env login_name login_password tags target),
              persisted = snd (run_body env login_name login_password tags target),
              final_state = st2\<rparr>"
    using assms(1) by (simp add: run_def sd cl Let_def)
  show ?thesis
    unfolding r using st2 by (simp add: close_returns)
qed

text \<open>
  C3 as amended, at a run with credentials in which the login raises and the driver
  fails to quit: \<open>close\<close> is called once and \<open>run\<close> raises the exception of the login.
\<close>

theorem run_closes_after_startup_witness:
  "\<not> mkdir_fails (quiet_env\<lparr>login_fails := True, quit_fails := True\<rparr>)
   \<and> driver_path_exists (quiet_env\<lparr>login_fails := True, quit_fails := True\<rparr>)
   \<and> close_calls (final_state
        (run (quiet_env\<lparr>login_fails := True, quit_fails := True\<rparr>) (Some ''u'') (Some ''p'') [] 500)) = 1
   \<and> outcome (run (quiet_env\<lparr>login_fails := True, quit_fails := True\<rparr>) (Some ''u'') (Some ''p'') [] 500)
       = Inl WebDriverException"
proof -
  let ?env = "quiet_env\<lparr>login_fails := True, quit_fails := True\<rparr>"
  have h: "\<not> mkdir_fails ?env" "driver_path_exists ?env" "\<not> chrome_fails ?env"
    "\<not> window_size_fails ?env"
    by (simp_all add: quiet_env_def)
  have b: "fst (run_body ?env (Some ''u'') (Some ''p'') [] 500) = Inl WebDriverException"
    by (simp add: run_body_def truthy_def quiet_env_def)
  from run_closes_after_startup [OF h, of "Some ''u''" "Some ''p''" "[]" 500]
  show ?thesis using h by (simp add: b)
qed

text \<open>
  C3 as stated fails when the driver start raises: with no driver binary at the given
  path \<open>run\<close> raises \<open>FileNotFoundError\<close> and \<open>close\<close> is not called, the start being outside
  the \<open>try\<close> whose \<open>finally\<close> calls it.
\<close>

theorem run_startup_failure_counterexample:
  "close_calls (final_state (run (quiet_env\<lparr>driver_path_exists := False\<rparr>) None None [] 500)) = 0
   \<and> outcome (run (quiet_env\<lparr>driver_path_exists := False\<rparr>) None None [] 500)
       = Inl FileNotFoundError"
  by (simp add: run_def start_driver_def quiet_env_def)

end
